theory Spec2Isabelle
  imports Main "HOL-Library.AList" "HOL-Library.Char_ord" "HOL-Library.List_Lexorder"
begin

section \<open>Text helpers\<close>

text \<open>
  Python \<open>str\<close> values are modelled as \<open>string\<close> (a list of \<open>char\<close>), one \<open>char\<close> per
  code point; the model therefore covers texts whose code points lie in 0..255.
  Python \<open>bytes\<close> values are modelled as lists of \<open>char\<close> as well.
\<close>

type_synonym bytes = "char list"

definition digit_char :: "nat \<Rightarrow> char" where
  "digit_char d = char_of (48 + d)"

text \<open>\<open>str(n)\<close> for a non-negative Python integer: its decimal numeral.\<close>

fun str_nat :: "nat \<Rightarrow> string" where
  "str_nat n = (if n < 10 then [digit_char n] else str_nat (n div 10) @ [digit_char (n mod 10)])"

declare str_nat.simps [simp del]

definition code_point :: "char \<Rightarrow> nat" where
  "code_point c = of_char c"

text \<open>\<open>str.isspace\<close>, the \<open>\d\<close> and \<open>\w\<close> classes of \<open>re\<close> on \<open>str\<close> patterns, and
  \<open>str.lower\<close>, on the code points 0..255.\<close>

definition is_space :: "char \<Rightarrow> bool" where
  "is_space c = (code_point c \<in> {9, 10, 11, 12, 13, 28, 29, 30, 31, 32, 133, 160})"

definition is_digit :: "char \<Rightarrow> bool" where
  "is_digit c = (48 \<le> code_point c \<and> code_point c \<le> 57)"

definition is_word :: "char \<Rightarrow> bool" where
  "is_word c =
     (let n = code_point c
      in (48 \<le> n \<and> n \<le> 57) \<or> (65 \<le> n \<and> n \<le> 90) \<or> n = 95 \<or> (97 \<le> n \<and> n \<le> 122)
         \<or> n \<in> {170, 178, 179, 181, 185, 186, 188, 189, 190}
         \<or> (192 \<le> n \<and> n \<noteq> 215 \<and> n \<noteq> 247))"

definition lower_char :: "char \<Rightarrow> char" where
  "lower_char c =
     (let n = code_point c
      in if (65 \<le> n \<and> n \<le> 90) \<or> (192 \<le> n \<and> n \<le> 222 \<and> n \<noteq> 215) then char_of (n + 32) else c)"

definition lower :: "string \<Rightarrow> string" where
  "lower s = map lower_char s"

text \<open>\<open>s.startswith(pre)\<close> and the substring test \<open>needle in s\<close>.\<close>

definition startswith :: "string \<Rightarrow> string \<Rightarrow> bool" where
  "startswith s pre = (take (length pre) s = pre)"

fun contains :: "string \<Rightarrow> string \<Rightarrow> bool" where
  "contains needle [] = (needle = [])"
| "contains needle (c # cs) = (startswith (c # cs) needle \<or> contains needle cs)"

text \<open>\<open>s.lstrip(c)\<close> and \<open>s.rstrip(c)\<close> for a one-character set, and \<open>s.rstrip()\<close>.\<close>

definition lstrip_char :: "char \<Rightarrow> string \<Rightarrow> string" where
  "lstrip_char c s = dropWhile (\<lambda>x. x = c) s"

definition rstrip_char :: "char \<Rightarrow> string \<Rightarrow> string" where
  "rstrip_char c s = rev (dropWhile (\<lambda>x. x = c) (rev s))"

definition rstrip :: "string \<Rightarrow> string" where
  "rstrip s = rev (dropWhile is_space (rev s))"

text \<open>\<open>s.replace(c, r)\<close> for a one-character \<open>c\<close>, and \<open>sep.join(xs)\<close>.\<close>

definition replace_char :: "char \<Rightarrow> string \<Rightarrow> string \<Rightarrow> string" where
  "replace_char c r s = concat (map (\<lambda>x. if x = c then r else [x]) s)"

fun join :: "string \<Rightarrow> string list \<Rightarrow> string" where
  "join sep [] = []"
| "join sep [x] = x"
| "join sep (x # y # ys) = x @ sep @ join sep (y # ys)"

text \<open>\<open>html.escape(s)\<close> with the default \<open>quote=True\<close>.\<close>

definition escape_char :: "char \<Rightarrow> string" where
  "escape_char c =
     (if c = CHR ''&'' then ''&amp;''
      else if c = CHR ''<'' then ''&lt;''
      else if c = CHR ''>'' then ''&gt;''
      else if c = CHR 0x22 then ''&quot;''
      else if c = CHR 0x27 then ''&#x27;''
      else [c])"

definition html_escape :: "string \<Rightarrow> string" where
  "html_escape s = concat (map escape_char s)"

text \<open>
  \<open>s.splitlines()\<close>: lines end at \<open>\n\<close>, \<open>\r\<close>, \<open>\r\n\<close>, \<open>\v\<close>, \<open>\f\<close>, the separators
  0x1c, 0x1d, 0x1e and 0x85; the breaks are dropped, and a break at the very end opens
  no further line. The accumulator \<open>cur\<close> is the line read so far.
\<close>

definition is_linebreak :: "char \<Rightarrow> bool" where
  "is_linebreak c = (code_point c \<in> {10, 11, 12, 13, 28, 29, 30, 133})"

fun splitlines_from :: "string \<Rightarrow> string \<Rightarrow> string list" where
  "splitlines_from cur [] = (if cur = [] then [] else [cur])"
| "splitlines_from cur [c] = (if is_linebreak c then [cur] else [cur @ [c]])"
| "splitlines_from cur (c # d # cs) =
     (if c = CHR 0x0D \<and> d = CHR 0x0A then cur # splitlines_from [] cs
      else if is_linebreak c then cur # splitlines_from [] (d # cs)
      else splitlines_from (cur @ [c]) (d # cs))"

definition splitlines :: "string \<Rightarrow> string list" where
  "splitlines s = splitlines_from [] s"

text \<open>
  The regular expressions of the program use literal characters and the wildcard \<open>.\<close>
  only (apart from the two patterns modelled by \<open>has_date\<close> and \<open>cid_split\<close> below), so a
  pattern is a list of atoms of width one. \<open>re.subn(pattern, '', s)\<close> deletes the
  matches found from left to right and counts them.
\<close>

datatype atom = Lit char | Dot

fun match_here :: "atom list \<Rightarrow> string \<Rightarrow> bool" where
  "match_here [] s = True"
| "match_here (a # as) [] = False"
| "match_here (Lit c # as) (x # xs) = (x = c \<and> match_here as xs)"
| "match_here (Dot # as) (x # xs) = (x \<noteq> CHR 0x0A \<and> match_here as xs)"

fun re_subn_delete :: "atom list \<Rightarrow> string \<Rightarrow> string \<times> nat" where
  "re_subn_delete pat [] = ([], 0)"
| "re_subn_delete pat (c # cs) =
     (if pat \<noteq> [] \<and> match_here pat (c # cs)
      then (let (r, n) = re_subn_delete pat (drop (length pat - 1) cs) in (r, n + 1))
      else (let (r, n) = re_subn_delete pat cs in (c # r, n)))"

definition literal :: "string \<Rightarrow> atom list" where
  "literal s = map Lit s"

text \<open>\<open>re.search(r"\d\d\d\d[-_]\d\d[-_]\d\d", s)\<close> as a truth value.\<close>

definition date_sep :: "char \<Rightarrow> bool" where
  "date_sep c = (c = CHR ''-'' \<or> c = CHR ''_'')"

fun date_here :: "string \<Rightarrow> bool" where
  "date_here (y1 # y2 # y3 # y4 # s1 # m1 # m2 # s2 # d1 # d2 # rest) =
     (is_digit y1 \<and> is_digit y2 \<and> is_digit y3 \<and> is_digit y4 \<and> date_sep s1
      \<and> is_digit m1 \<and> is_digit m2 \<and> date_sep s2 \<and> is_digit d1 \<and> is_digit d2)"
| "date_here s = False"

fun has_date :: "string \<Rightarrow> bool" where
  "has_date [] = False"
| "has_date (c # cs) = (date_here (c # cs) \<or> has_date cs)"

text \<open>\<open>s.rfind(c)\<close> for a one-character needle: the last index of \<open>c\<close>, or \<open>-1\<close>.\<close>

primrec rfind_aux :: "char \<Rightarrow> string \<Rightarrow> int \<Rightarrow> int \<Rightarrow> int" where
  "rfind_aux c [] i acc = acc"
| "rfind_aux c (x # xs) i acc = rfind_aux c xs (i + 1) (if x = c then i else acc)"

definition rfind :: "char \<Rightarrow> string \<Rightarrow> int" where
  "rfind c s = rfind_aux c s 0 (- 1)"

section \<open>Paths and the filesystem\<close>

text \<open>
  \<open>os.path.splitext\<close> on a POSIX system (\<open>genericpath._splitext\<close> with separator \<open>/\<close>,
  no alternative separator, extension separator \<open>.\<close>): the extension starts at the last
  dot of the last path component, unless that component consists of leading dots only up
  to that dot.
\<close>

function splitext_loop :: "string \<Rightarrow> int \<Rightarrow> int \<Rightarrow> string \<times> string" where
  "splitext_loop p filenameIndex dotIndex =
     (if filenameIndex < dotIndex then
        (if p ! nat filenameIndex \<noteq> CHR ''.'' then (take (nat dotIndex) p, drop (nat dotIndex) p)
         else splitext_loop p (filenameIndex + 1) dotIndex)
      else (p, []))"
  by pat_completeness auto
termination
  by (relation "measure (\<lambda>(p, f, d). nat (d - f))") auto

declare splitext_loop.simps [simp del]

definition splitext :: "string \<Rightarrow> string \<times> string" where
  "splitext p =
     (let sepIndex = rfind (CHR ''/'') p;
          dotIndex = rfind (CHR ''.'') p
      in if dotIndex > sepIndex then splitext_loop p (sepIndex + 1) dotIndex else (p, []))"

text \<open>
  The filesystem as far as the program observes it: the regular files, as an association
  list from path to content. \<open>os.path.isfile\<close> is a lookup.
\<close>

type_synonym filesystem = "(string \<times> bytes) list"

definition isfile :: "filesystem \<Rightarrow> string \<Rightarrow> bool" where
  "isfile fs p = (map_of fs p \<noteq> None)"

text \<open>The path tried by \<open>get_unique_version\<close> for the counter value \<open>n\<close>.\<close>

definition versioned :: "string \<times> string \<Rightarrow> nat \<Rightarrow> string" where
  "versioned file_name_parts n = fst file_name_parts @ ''_'' @ str_nat n @ snd file_name_parts"

lemma digit_char_inj: "a < 10 \<Longrightarrow> b < 10 \<Longrightarrow> digit_char a = digit_char b \<Longrightarrow> a = b"
proof -
  assume a: "a < 10" and b: "b < 10" and e: "digit_char a = digit_char b"
  have "of_char (char_of (48 + a) :: char) = (of_char (char_of (48 + b) :: char) :: nat)"
    using e by (simp add: digit_char_def)
  moreover have "(48 + a) mod 256 = 48 + a" "(48 + b) mod 256 = 48 + b"
    using a b by simp_all
  ultimately show "a = b"
    by (simp add: of_char_of)
qed

lemma str_nat_nonempty: "str_nat n \<noteq> []"
  by (subst str_nat.simps) simp

lemma str_nat_inj: "str_nat m = str_nat n \<Longrightarrow> m = n"
proof (induction m arbitrary: n rule: str_nat.induct)
  case (1 m)
  show ?case
  proof (cases "m < 10")
    case small_m: True
    show ?thesis
    proof (cases "n < 10")
      case True
      with small_m "1.prems" show ?thesis
        by (subst (asm) str_nat.simps, subst (asm) (2) str_nat.simps) (simp add: digit_char_inj)
    next
      case False
      have "str_nat n = str_nat (n div 10) @ [digit_char (n mod 10)]"
        using False by (subst str_nat.simps) simp
      moreover have "str_nat m = [digit_char m]"
        using small_m by (subst str_nat.simps) simp
      ultimately show ?thesis
        using "1.prems" str_nat_nonempty [of "n div 10"] by (cases "str_nat (n div 10)") simp_all
    qed
  next
    case big_m: False
    have em: "str_nat m = str_nat (m div 10) @ [digit_char (m mod 10)]"
      using big_m by (subst str_nat.simps) simp
    show ?thesis
    proof (cases "n < 10")
      case True
      then have "str_nat n = [digit_char n]"
        by (subst str_nat.simps) simp
      with em show ?thesis
        using "1.prems" str_nat_nonempty [of "m div 10"] by (cases "str_nat (m div 10)") simp_all
    next
      case False
      then have en: "str_nat n = str_nat (n div 10) @ [digit_char (n mod 10)]"
        by (subst str_nat.simps) simp
      from em en "1.prems" have q: "str_nat (m div 10) = str_nat (n div 10)"
        and r: "digit_char (m mod 10) = digit_char (n mod 10)"
        by simp_all
      from "1.IH" [OF big_m q] have "m div 10 = n div 10" .
      moreover from r have "m mod 10 = n mod 10"
        by (intro digit_char_inj) simp_all
      ultimately show ?thesis
        by (metis div_mult_mod_eq)
    qed
  qed
qed

lemma versioned_inj: "versioned fp m = versioned fp n \<Longrightarrow> m = n"
  by (simp add: versioned_def str_nat_inj)

lemma finite_versioned_files: "finite {n. isfile fs (versioned fp n)}"
proof -
  have "{n. isfile fs (versioned fp n)} = versioned fp -` (fst ` set fs)"
    by (auto simp: isfile_def map_of_eq_None_iff)
  moreover have "finite (versioned fp -` (fst ` set fs))"
    by (intro finite_vimageI) (auto simp: inj_on_def dest: versioned_inj)
  ultimately show ?thesis by simp
qed

text \<open>
  The \<open>while os.path.isfile(filename)\<close> loop of \<open>get_unique_version\<close>. It ends because
  the paths tried are pairwise distinct and the filesystem holds finitely many files.
\<close>

definition pending :: "filesystem \<Rightarrow> string \<times> string \<Rightarrow> nat \<Rightarrow> string \<Rightarrow> nat" where
  "pending fs fp counter filename =
     card {n. counter \<le> n \<and> isfile fs (versioned fp n)} + (if isfile fs filename then 1 else 0)"

lemma pending_step:
  assumes "isfile fs filename"
  shows "pending fs fp (counter + 1) (versioned fp counter) < pending fs fp counter filename"
proof -
  let ?A = "{n. counter + 1 \<le> n \<and> isfile fs (versioned fp n)}"
  let ?B = "{n. counter \<le> n \<and> isfile fs (versioned fp n)}"
  have fin: "finite ?B"
    by (rule finite_subset [OF _ finite_versioned_files [of fs fp]]) auto
  show ?thesis
  proof (cases "isfile fs (versioned fp counter)")
    case True
    then have "?B = insert counter ?A" by auto
    moreover have "counter \<notin> ?A" by simp
    moreover have "finite ?A"
      by (rule finite_subset [OF _ fin]) auto
    ultimately have "card ?B = card ?A + 1" by simp
    with True assms show ?thesis by (simp add: pending_def)
  next
    case False
    then have "?B = ?A"
      by (auto simp: Suc_le_eq le_less)
    with False assms show ?thesis by (simp add: pending_def)
  qed
qed

function unique_loop :: "filesystem \<Rightarrow> string \<times> string \<Rightarrow> nat \<Rightarrow> string \<Rightarrow> string" where
  "unique_loop fs file_name_parts counter filename =
     (if isfile fs filename
      then unique_loop fs file_name_parts (counter + 1) (versioned file_name_parts counter)
      else filename)"
  by pat_completeness auto
termination
  by (relation "measure (\<lambda>(fs, fp, counter, filename). pending fs fp counter filename)")
     (use pending_step in auto)

declare unique_loop.simps [simp del]

definition get_unique_version :: "filesystem \<Rightarrow> string \<Rightarrow> string" where
  "get_unique_version fs filename = unique_loop fs (splitext filename) 1 filename"

text \<open>\<open>os.path.join(a, b)\<close> and \<open>os.path.split\<close> (for \<open>dirname\<close> and \<open>basename\<close>) on POSIX.\<close>

definition path_join :: "string \<Rightarrow> string \<Rightarrow> string" where
  "path_join a b =
     (if startswith b ''/'' then b
      else if a = [] \<or> last a = CHR ''/'' then a @ b
      else a @ ''/'' @ b)"

definition path_split :: "string \<Rightarrow> string \<times> string" where
  "path_split p =
     (let i = nat (rfind (CHR ''/'') p + 1);
          head = take i p;
          tail = drop i p
      in if head \<noteq> [] \<and> head \<noteq> replicate (length head) (CHR ''/'')
         then (rstrip_char (CHR ''/'') head, tail) else (head, tail))"

definition get_modified_output_file_name :: "string \<Rightarrow> string \<Rightarrow> string" where
  "get_modified_output_file_name output_file_name appended =
     (let partial_name = fst (splitext output_file_name)
      in path_join (fst (path_split partial_name)) (snd (path_split partial_name) @ appended))"

section \<open>Messages, the world, and the libraries\<close>

text \<open>
  Exceptions are values. \<open>FatalException\<close> is the program's own failure type; the others
  are the Python exceptions the modelled code can let escape.
\<close>

datatype exn =
    FatalException string
  | AssertionError
  | UnicodeDecodeError
  | LookupError
  | TypeError
  | IndexError
  | OSError
  | UnboundLocalError
  | OtherError string

text \<open>
  A part of the parsed message, as \<open>email.message.Message\<close> exposes it to the program:
  the header fields (\<open>part[name]\<close> looks a name up without regard to case and yields the
  first value), and what the library computes from them: \<open>get_content_type()\<close>,
  \<open>get_content_charset()\<close>, \<open>get_param('name', header='Content-Type')\<close>,
  \<open>get_filename()\<close>, and for a part that is not multipart \<open>get_payload(decode=False)\<close>
  and \<open>get_payload(decode=True)\<close>.
\<close>

record part_info =
  header_fields :: "(string \<times> string) list"
  get_content_type :: string
  get_content_charset :: "string option"
  get_param_name :: "string option"
  get_filename :: "string option"
  raw_payload :: string
  decoded_payload :: bytes

datatype part = Leaf part_info | Multipart part_info "part list"

fun info :: "part \<Rightarrow> part_info" where
  "info (Leaf i) = i"
| "info (Multipart i cs) = i"

fun is_multipart :: "part \<Rightarrow> bool" where
  "is_multipart (Leaf i) = False"
| "is_multipart (Multipart i cs) = True"

text \<open>\<open>message.walk()\<close>: the part itself, then its subparts, depth first.\<close>

fun walk :: "part \<Rightarrow> part list" where
  "walk (Leaf i) = [Leaf i]"
| "walk (Multipart i cs) = Multipart i cs # concat (map walk cs)"

definition get_item :: "part \<Rightarrow> string \<Rightarrow> string option" where
  "get_item p name = map_of (map (\<lambda>(k, v). (lower k, v)) (header_fields (info p))) (lower name)"

text \<open>\<open>get_payload(decode=False)\<close> is a list for a multipart part (modelled as \<open>None\<close>),
  and \<open>get_payload(decode=True)\<close> is \<open>None\<close> for it.\<close>

definition get_payload_raw :: "part \<Rightarrow> string option" where
  "get_payload_raw p = (if is_multipart p then None else Some (raw_payload (info p)))"

definition get_payload_decoded :: "part \<Rightarrow> bytes option" where
  "get_payload_decoded p = (if is_multipart p then None else Some (decoded_payload (info p)))"

text \<open>
  The parts of a message are compared by object identity, so a part is identified by its
  position in the walk of the message, and a set of parts is a set of positions.
\<close>

type_synonym part_id = nat

text \<open>One element of \<open>email.header.decode_header\<close>'s result: a chunk paired with a charset.\<close>

datatype hchunk = HBytes bytes | HStr string

datatype fetch_result = Opened | HTTPError | URLError | ValueError | FetchRaised exn

text \<open>The document tree that \<open>BeautifulSoup\<close> builds: elements with attributes, and text.\<close>

datatype node = Element string "(string \<times> string) list" "node list" | Text string

record proc_result =
  stdout :: bytes
  stderr :: bytes
  returncode :: int
  written_pdf :: "bytes option"

text \<open>
  What the program obtains from outside its own source: the Python libraries, the
  rendering engine, the network, the clock and the environment. A value of this record
  fixes them for one run.
  \<^item> \<open>decode_header\<close>: \<open>email.header.decode_header\<close>;
  \<^item> \<open>str_decode cs b\<close>: \<open>str(b, cs)\<close>; \<open>str_decode_replace cs b\<close>: \<open>str(b, cs, errors='replace')\<close>;
  \<^item> \<open>encode_utf8 s\<close>: \<open>bytes(s, 'UTF-8')\<close>;
  \<^item> \<open>chardet_encoding b\<close>: \<open>chardet.detect(b)["encoding"]\<close>;
  \<^item> \<open>magic_from_buffer\<close>: the MIME type sniffed by \<open>magic\<close>;
  \<^item> \<open>guess_all_extensions\<close>: \<open>mimetypes.guess_all_extensions\<close>;
  \<^item> \<open>textwrap_fill line\<close>: \<open>textwrap.fill(line, width=80)\<close>;
  \<^item> \<open>urlopen url\<close>: the outcome of \<open>urlopen(Request(url))\<close>;
  \<^item> \<open>strftime_date\<close>: \<open>datetime.now().strftime("%Y-%m-%d-")\<close>;
  \<^item> \<open>set_iter\<close>: the order in which a Python set of parts is iterated;
  \<^item> \<open>frozenset_iter\<close>: the order in which the frozenset of patterns is iterated;
  \<^item> \<open>open_ok path\<close>: whether \<open>open(path, 'wb')\<close> succeeds;
  \<^item> \<open>soup_parse\<close>, \<open>soup_str\<close>: \<open>BeautifulSoup(payload, "html5lib")\<close> and \<open>str(soup)\<close>;
  \<^item> \<open>wkhtmltopdf input\<close>: what the rendering process returns for the input on its pipe;
  \<^item> \<open>xdg_session_type\<close>: \<open>os.environ.get('XDG_SESSION_TYPE')\<close>;
  \<^item> \<open>pdf_set_info pdf info\<close>: the PDF with the info dictionary entries merged in.
\<close>

record lib =
  decode_header :: "string \<Rightarrow> (hchunk \<times> string option) list"
  str_decode :: "string \<Rightarrow> bytes \<Rightarrow> exn + string"
  str_decode_replace :: "string \<Rightarrow> bytes \<Rightarrow> exn + string"
  encode_utf8 :: "string \<Rightarrow> bytes"
  chardet_encoding :: "bytes \<Rightarrow> string option"
  magic_from_buffer :: "bytes \<Rightarrow> string"
  guess_all_extensions :: "string \<Rightarrow> string list"
  textwrap_fill :: "string \<Rightarrow> string"
  urlopen :: "string \<Rightarrow> fetch_result"
  strftime_date :: string
  set_iter :: "part_id set \<Rightarrow> part_id list"
  frozenset_iter :: "atom list list \<Rightarrow> atom list list"
  open_ok :: "string \<Rightarrow> bool"
  soup_parse :: "string \<Rightarrow> node"
  soup_str :: "node \<Rightarrow> string"
  wkhtmltopdf :: "bytes \<Rightarrow> proc_result"
  xdg_session_type :: "string option"
  pdf_set_info :: "bytes \<Rightarrow> (string \<times> string) list \<Rightarrow> exn + bytes"

text \<open>
  The state a run changes:
  \<^item> \<open>files\<close>: the regular files;
  \<^item> \<open>warnings\<close>: the messages of the records logged at level WARNING, oldest first
    (records at DEBUG and INFO are not kept: nothing in the program reads them; the file
    that the logging handler keeps beside the output file is not among \<open>files\<close>);
  \<^item> \<open>heap\<close>: the Python \<open>set\<close> objects holding parts, an object being its index;
  \<^item> \<open>requests\<close>: the URLs handed to \<open>urlopen\<close>, oldest first;
  \<^item> \<open>passes\<close>: for each call of \<open>handle_attachments\<close>, oldest first, the set object
    passed as \<open>parts_to_ignore\<close> and its content at the call (kept for observation only).
\<close>

record world =
  files :: filesystem
  warnings :: "string list"
  heap :: "part_id set list"
  requests :: "string list"
  passes :: "(nat \<times> part_id set) list"

type_synonym 'a result = "(exn + 'a) \<times> world"

definition new_set :: "part_id set \<Rightarrow> world \<Rightarrow> nat \<times> world" where
  "new_set v w = (length (heap w), w\<lparr>heap := heap w @ [v]\<rparr>)"

definition set_add :: "nat \<Rightarrow> part_id \<Rightarrow> world \<Rightarrow> world" where
  "set_add a x w = w\<lparr>heap := (heap w)[a := insert x (heap w ! a)]\<rparr>"

definition set_val :: "world \<Rightarrow> nat \<Rightarrow> part_id set" where
  "set_val w a = heap w ! a"

definition logger_warning :: "string \<Rightarrow> world \<Rightarrow> world" where
  "logger_warning msg w = w\<lparr>warnings := warnings w @ [msg]\<rparr>"

text \<open>\<open>WarningCountFilter.warning_pending\<close>: whether a warning has been logged since the
  world \<open>w0\<close> in which the filter was created.\<close>

definition warning_pending :: "world \<Rightarrow> world \<Rightarrow> bool" where
  "warning_pending w0 w = (length (warnings w0) < length (warnings w))"

definition write_file :: "string \<Rightarrow> bytes \<Rightarrow> world \<Rightarrow> world" where
  "write_file path content w = w\<lparr>files := AList.update path content (files w)\<rparr>"

section \<open>Part finder\<close>

definition MIME_TYPES_BLACKLIST :: "string list" where
  "MIME_TYPES_BLACKLIST = [''text/html'', ''text/plain'']"

definition AUTOCALCULATED_FILENAME_EXTENSION_BLACKLIST :: "string list" where
  "AUTOCALCULATED_FILENAME_EXTENSION_BLACKLIST = [''.jpe'', ''.jpeg'']"

definition AUTOGENERATED_ATTACHMENT_PREFIX :: string where
  "AUTOGENERATED_ATTACHMENT_PREFIX = ''floating_attachment''"

definition IMAGE_LOAD_BLACKLIST :: "string list" where
  "IMAGE_LOAD_BLACKLIST = [''emltrk.com'', ''trk.email'', ''shim.gif'']"

text \<open>The three \<open>find_part_by_...\<close> loops return the first part of the walk that passes
  the test, as its position.\<close>

fun first_index :: "('a \<Rightarrow> bool) \<Rightarrow> 'a list \<Rightarrow> nat \<Rightarrow> nat option" where
  "first_index P [] i = None"
| "first_index P (x # xs) i = (if P x then Some i else first_index P xs (i + 1))"

definition find_part_by_content_type_name :: "part \<Rightarrow> string \<Rightarrow> part_id option" where
  "find_part_by_content_type_name message content_type_name =
     first_index (\<lambda>p. get_param_name (info p) = Some content_type_name) (walk message) 0"

definition find_part_by_content_type :: "part \<Rightarrow> string \<Rightarrow> part_id option" where
  "find_part_by_content_type message ctype =
     first_index (\<lambda>p. get_content_type (info p) = ctype) (walk message) 0"

definition find_part_by_content_id :: "part \<Rightarrow> string \<Rightarrow> part_id option" where
  "find_part_by_content_id message cid =
     first_index (\<lambda>p. get_item p ''Content-ID'' = Some cid
                      \<or> get_item p ''Content-ID'' = Some (''<'' @ cid @ ''>'')) (walk message) 0"

definition get_content_id :: "part \<Rightarrow> string option" where
  "get_content_id p =
     (case get_item p ''Content-ID'' of
        None \<Rightarrow> None
      | Some cid \<Rightarrow> if cid \<noteq> [] then Some (rstrip_char (CHR ''>'') (lstrip_char (CHR ''<'') cid))
                    else Some cid)"

text \<open>\<open>sorted(list(filetypes))[0]\<close> is the least element in the order of Python strings,
  which is the lexicographic order on code points.\<close>

definition get_type_extension :: "lib \<Rightarrow> string \<Rightarrow> string option" where
  "get_type_extension L ctype =
     (let filetypes = filter (\<lambda>e. e \<notin> set AUTOCALCULATED_FILENAME_EXTENSION_BLACKLIST)
                        (guess_all_extensions L ctype)
      in if length (remdups filetypes) > 0 then Some (hd (sort (remdups filetypes))) else None)"

text \<open>\<open>find_all_attachments\<close> fills a new set object while it walks the message.\<close>

fun find_all_attachments_loop :: "part list \<Rightarrow> nat \<Rightarrow> nat \<Rightarrow> nat \<Rightarrow> world \<Rightarrow> world" where
  "find_all_attachments_loop [] i parts_to_ignore parts w = w"
| "find_all_attachments_loop (p # ps) i parts_to_ignore parts w =
     find_all_attachments_loop ps (i + 1) parts_to_ignore parts
       (if i \<notin> set_val w parts_to_ignore \<and> \<not> is_multipart p
        then (if get_content_type (info p) \<notin> set MIME_TYPES_BLACKLIST then set_add parts i w else w)
        else w)"

definition find_all_attachments :: "part \<Rightarrow> nat \<Rightarrow> world \<Rightarrow> nat \<times> world" where
  "find_all_attachments message parts_to_ignore w =
     (let (parts, w1) = new_set {} w
      in (parts, find_all_attachments_loop (walk message) 0 parts_to_ignore parts w1))"

fun filter_filenamed_parts_loop :: "part list \<Rightarrow> part_id list \<Rightarrow> nat \<Rightarrow> world \<Rightarrow> world" where
  "filter_filenamed_parts_loop ps [] new_parts w = w"
| "filter_filenamed_parts_loop ps (i # is) new_parts w =
     filter_filenamed_parts_loop ps is new_parts
       (if get_filename (info (ps ! i)) \<noteq> None then set_add new_parts i w else w)"

definition filter_filenamed_parts :: "lib \<Rightarrow> part \<Rightarrow> nat \<Rightarrow> world \<Rightarrow> nat \<times> world" where
  "filter_filenamed_parts L message parts w =
     (let (new_parts, w1) = new_set {} w
      in (new_parts,
          filter_filenamed_parts_loop (walk message) (set_iter L (set_val w parts)) new_parts w1))"

section \<open>Header decoder\<close>

text \<open>The loop of \<open>get_utf8_header\<close> over the elements of the decoded header; \<open>hdr\<close> is
  the text built so far. \<open>element[1] or 'ASCII'\<close> is ASCII for \<open>None\<close> and for the empty
  string.\<close>

fun get_utf8_header_loop :: "lib \<Rightarrow> (hchunk \<times> string option) list \<Rightarrow> string \<Rightarrow> exn + string" where
  "get_utf8_header_loop L [] hdr = Inr hdr"
| "get_utf8_header_loop L ((HBytes b, cs) # es) hdr =
     (case str_decode L (if cs = None \<or> cs = Some [] then ''ASCII'' else the cs) b of
        Inl e \<Rightarrow> Inl e
      | Inr s \<Rightarrow> get_utf8_header_loop L es (hdr @ s))"
| "get_utf8_header_loop L ((HStr s, cs) # es) hdr = get_utf8_header_loop L es (hdr @ s)"

definition get_utf8_header :: "lib \<Rightarrow> string \<Rightarrow> exn + string" where
  "get_utf8_header L header = get_utf8_header_loop L (decode_header L header) []"

text \<open>\<open>extract_part_filename\<close>: \<open>decode_header(filename)[0]\<close> is the first element only;
  \<open>str(x, charset)\<close> of a text \<open>x\<close> raises \<open>TypeError\<close>.\<close>

definition extract_part_filename :: "lib \<Rightarrow> part \<Rightarrow> exn + string option" where
  "extract_part_filename L p =
     (case get_filename (info p) of
        None \<Rightarrow> Inr None
      | Some fname \<Rightarrow>
          (case decode_header L fname of
             [] \<Rightarrow> Inl IndexError
           | (chunk, None) # _ \<Rightarrow> Inr (Some fname)
           | (HBytes b, Some cs) # _ \<Rightarrow>
               (case str_decode L cs b of Inl e \<Rightarrow> Inl e | Inr s \<Rightarrow> Inr (Some s))
           | (HStr s, Some cs) # _ \<Rightarrow> Inl TypeError))"

section \<open>Attachment extractor\<close>

text \<open>Python's truth test on an optional text: \<open>None\<close> and the empty text are false.\<close>

definition falsy :: "string option \<Rightarrow> bool" where
  "falsy x = (x = None \<or> x = Some [])"

text \<open>
  The \<open>for part in parts\<close> loop of \<open>handle_attachments\<close>, over the parts in the order
  the set yields them. A part without a file name is passed over when
  \<open>ignore_floating_attachments\<close> is set (the \<open>continue\<close>). \<open>open(full_filename, 'wb')\<close>
  creates the file before the payload is written.
\<close>

fun handle_attachments_loop ::
  "lib \<Rightarrow> part list \<Rightarrow> string \<Rightarrow> bool \<Rightarrow> bool \<Rightarrow> part_id list \<Rightarrow> world \<Rightarrow> unit result" where
  "handle_attachments_loop L ps output_directory add_prefix_date ignore_floating [] w = (Inr (), w)"
| "handle_attachments_loop L ps output_directory add_prefix_date ignore_floating (i # is) w =
     (case extract_part_filename L (ps ! i) of
        Inl e \<Rightarrow> (Inl e, w)
      | Inr fname \<Rightarrow>
          if falsy fname \<and> ignore_floating
          then handle_attachments_loop L ps output_directory add_prefix_date ignore_floating is w
          else
            (let fname1 =
                   (if falsy fname then
                      (let cid = get_content_id (ps ! i);
                           fname0 = (if falsy cid then AUTOGENERATED_ATTACHMENT_PREFIX else the cid);
                           extension = get_type_extension L (get_content_type (info (ps ! i)))
                       in if falsy extension then fname0 else fname0 @ the extension)
                    else the fname);
                 fname2 = (if add_prefix_date \<and> \<not> has_date fname1
                           then strftime_date L @ fname1 else fname1);
                 full_filename = get_unique_version (files w) (path_join output_directory fname2)
             in if \<not> open_ok L full_filename then (Inl OSError, w)
                else (case get_payload_decoded (ps ! i) of
                        None \<Rightarrow> (Inl TypeError, write_file full_filename [] w)
                      | Some payload \<Rightarrow>
                          handle_attachments_loop L ps output_directory add_prefix_date
                            ignore_floating is (write_file full_filename payload w))))"

definition handle_attachments ::
  "lib \<Rightarrow> part \<Rightarrow> string \<Rightarrow> bool \<Rightarrow> bool \<Rightarrow> nat \<Rightarrow> world \<Rightarrow> nat result" where
  "handle_attachments L input_email output_directory add_prefix_date ignore_floating parts_to_ignore w =
     (let w0 = w\<lparr>passes := passes w @ [(parts_to_ignore, set_val w parts_to_ignore)]\<rparr>;
          (parts, w1) = find_all_attachments input_email parts_to_ignore w0
      in case handle_attachments_loop L (walk input_email) output_directory add_prefix_date
                ignore_floating (set_iter L (set_val w1 parts)) w1 of
           (Inl e, w2) \<Rightarrow> (Inl e, w2)
         | (Inr u, w2) \<Rightarrow> (Inr (card (set_val w2 parts)), w2))"

section \<open>Body resolver\<close>

definition plain_to_html :: "lib \<Rightarrow> string \<Rightarrow> string" where
  "plain_to_html L payload =
     ''<html><body><pre>'' @ [CHR 0x0A]
     @ html_escape (join [CHR 0x0A] (map (textwrap_fill L) (splitlines payload)))
     @ [CHR 0x0A] @ ''</pre></body></html>''"

text \<open>
  \<open>handle_plain_message_body\<close>. The wrapping, the escaping and the HTML envelope
  (\<open>plain_to_html\<close>) are statements of the \<open>else\<close> branch; the \<open>8bit\<close> branch goes on to
  \<open>return payload\<close>.
\<close>

definition handle_plain_message_body :: "lib \<Rightarrow> part \<Rightarrow> world \<Rightarrow> string result" where
  "handle_plain_message_body L p w =
     (if get_item p ''Content-Transfer-Encoding'' = Some ''8bit'' then
        (case get_payload_raw p of
           None \<Rightarrow> (Inl AssertionError, w)
         | Some payload \<Rightarrow> (Inr payload, w))
      else
        (case get_payload_decoded p of
           None \<Rightarrow> (Inl AssertionError, w)
         | Some payload \<Rightarrow>
             (let charset = (if falsy (get_content_charset (info p)) then ''utf-8''
                             else the (get_content_charset (info p)))
              in case str_decode L charset payload of
                   Inr text \<Rightarrow> (Inr (plain_to_html L text), w)
                 | Inl e \<Rightarrow>
                     if e = UnicodeDecodeError then
                       (let w1 = logger_warning
                              (''UnicodeDecodeErrors in plain message body, using ''
                               @ [CHR 0x27] @ ''replace'' @ [CHR 0x27]) w
                        in case str_decode_replace L charset payload of
                             Inl e' \<Rightarrow> (Inl e', w1)
                           | Inr text \<Rightarrow> (Inr (plain_to_html L text), w1))
                     else (Inl e, w))))"

text \<open>
  The matches of \<open>cid:([\w_@.-]+)\<close> in a text, as \<open>re.sub\<close> finds them: from left to
  right, each as long as possible, none overlapping another. \<open>Ref t\<close> is a match whose
  group 1 is \<open>t\<close>; \<open>Plain c\<close> is a character outside every match.
\<close>

datatype piece = Plain char | Ref string

definition is_cid_char :: "char \<Rightarrow> bool" where
  "is_cid_char c = (is_word c \<or> c = CHR ''_'' \<or> c = CHR ''@'' \<or> c = CHR ''.'' \<or> c = CHR ''-'')"

function cid_split :: "string \<Rightarrow> piece list" where
  "cid_split [] = []"
| "cid_split (c # cs) =
     (if startswith (c # cs) ''cid:'' \<and> takeWhile is_cid_char (drop 3 cs) \<noteq> []
      then Ref (takeWhile is_cid_char (drop 3 cs)) # cid_split (dropWhile is_cid_char (drop 3 cs))
      else Plain c # cid_split cs)"
  by pat_completeness auto
termination
proof (relation "measure length")
  fix c :: char and cs :: string
  have "length (dropWhile is_cid_char (drop 3 cs)) \<le> length (drop 3 cs)"
    by (rule length_dropWhile_le)
  then show "(dropWhile is_cid_char (drop 3 cs), c # cs) \<in> measure length"
    by simp
qed simp_all

text \<open>\<open>re.sub(pattern, repl, text)\<close> with a function \<open>repl\<close>: it is called on each match in
  turn, and an exception it raises ends the substitution.\<close>

fun re_sub :: "(string \<Rightarrow> world \<Rightarrow> string result) \<Rightarrow> piece list \<Rightarrow> world \<Rightarrow> string result" where
  "re_sub repl [] w = (Inr [], w)"
| "re_sub repl (Plain c # ps) w =
     (case re_sub repl ps w of
        (Inl e, w1) \<Rightarrow> (Inl e, w1)
      | (Inr out, w1) \<Rightarrow> (Inr (c # out), w1))"
| "re_sub repl (Ref t # ps) w =
     (case repl t w of
        (Inl e, w1) \<Rightarrow> (Inl e, w1)
      | (Inr r, w1) \<Rightarrow>
          (case re_sub repl ps w1 of
             (Inl e, w2) \<Rightarrow> (Inl e, w2)
           | (Inr out, w2) \<Rightarrow> (Inr (r @ out), w2)))"

definition get_mime_type :: "lib \<Rightarrow> bytes \<Rightarrow> string" where
  "get_mime_type L buffer_data = magic_from_buffer L buffer_data"

definition cid_replace :: "lib \<Rightarrow> part \<Rightarrow> nat \<Rightarrow> string \<Rightarrow> world \<Rightarrow> string result" where
  "cid_replace L input_email cid_parts_used cid w =
     (let image_part = (case find_part_by_content_id input_email cid of
                          None \<Rightarrow> find_part_by_content_type_name input_email cid
                        | Some i \<Rightarrow> Some i)
      in case image_part of
           Some i \<Rightarrow>
             if get_item (walk input_email ! i) ''Content-Transfer-Encoding'' \<noteq> Some ''base64''
             then (Inl AssertionError, w)
             else
               (case get_payload_raw (walk input_email ! i) of
                  None \<Rightarrow> (Inl TypeError, w)
                | Some b64 \<Rightarrow>
                    (let image_base64 =
                           filter (\<lambda>c. c \<noteq> CHR 0x0D \<and> c \<noteq> CHR 0x0A \<and> c \<noteq> CHR 0x09) b64
                     in case get_payload_decoded (walk input_email ! i) of
                          None \<Rightarrow> (Inl TypeError, w)
                        | Some image_decoded \<Rightarrow>
                            (Inr (''data:'' @ get_mime_type L image_decoded @ '';base64,''
                                  @ image_base64),
                             set_add cid_parts_used i w)))
         | None \<Rightarrow>
             (Inr ''broken'',
              logger_warning (''Could not find image cid '' @ cid @ '' in email content.'') w))"

text \<open>The decoding of the HTML payload: with the declared charset, UTF-8 when there is
  none, and once more with the charset \<open>chardet\<close> detects when that raises
  \<open>UnicodeDecodeError\<close>; the log line built with the detected charset raises \<open>TypeError\<close>
  when nothing was detected.\<close>

definition decode_html :: "lib \<Rightarrow> part \<Rightarrow> bytes \<Rightarrow> exn + string" where
  "decode_html L p payload =
     (let charset = (if falsy (get_content_charset (info p)) then ''utf-8''
                     else the (get_content_charset (info p)))
      in case str_decode L charset payload of
           Inr text \<Rightarrow> Inr text
         | Inl e \<Rightarrow>
             if e = UnicodeDecodeError then
               (case chardet_encoding L payload of
                  None \<Rightarrow> Inl TypeError
                | Some detected \<Rightarrow> str_decode L detected payload)
             else Inl e)"

definition handle_html_message_body ::
  "lib \<Rightarrow> part \<Rightarrow> part \<Rightarrow> world \<Rightarrow> (string \<times> nat) result" where
  "handle_html_message_body L input_email p w =
     (let (cid_parts_used, w1) = new_set {} w
      in case get_payload_decoded p of
           None \<Rightarrow> (Inl TypeError, w1)
         | Some payload \<Rightarrow>
             (case decode_html L p payload of
                Inl e \<Rightarrow> (Inl e, w1)
              | Inr payload_unicode \<Rightarrow>
                  (case re_sub (cid_replace L input_email cid_parts_used)
                          (cid_split payload_unicode) w1 of
                     (Inl e, w2) \<Rightarrow> (Inl e, w2)
                   | (Inr out, w2) \<Rightarrow> (Inr (out, cid_parts_used), w2))))"

record args =
  body :: bool
  attachments :: bool
  headers :: bool
  add_prefix_date :: bool
  ignore_floating_attachments :: bool

definition handle_message_body ::
  "lib \<Rightarrow> args \<Rightarrow> part \<Rightarrow> world \<Rightarrow> (string option \<times> nat) result" where
  "handle_message_body L a input_email w =
     (let (cid_parts_used, w1) = new_set {} w
      in case find_part_by_content_type input_email ''text/html'' of
           None \<Rightarrow>
             (case find_part_by_content_type input_email ''text/plain'' of
                None \<Rightarrow>
                  if \<not> body a then (Inr (None, cid_parts_used), w1)
                  else (Inl (FatalException ''No body parts found; aborting.''), w1)
              | Some i \<Rightarrow>
                  (case handle_plain_message_body L (walk input_email ! i) w1 of
                     (Inl e, w2) \<Rightarrow> (Inl e, w2)
                   | (Inr payload, w2) \<Rightarrow> (Inr (Some payload, cid_parts_used), w2)))
         | Some i \<Rightarrow>
             (case handle_html_message_body L input_email (walk input_email ! i) w1 of
                (Inl e, w2) \<Rightarrow> (Inl e, w2)
              | (Inr (payload, used), w2) \<Rightarrow> (Inr (Some payload, used), w2)))"

section \<open>Rendering the body\<close>

definition WKHTMLTOPDF_ERRORS_IGNORE :: "atom list list" where
  "WKHTMLTOPDF_ERRORS_IGNORE =
     [literal ''QFont::setPixelSize: Pixel size <= 0 (0)'',
      literal ''Invalid SOS parameters for sequential JPEG'',
      literal ''libpng warning: Out of place sRGB chunk'',
      literal ''Exit with code 1 due to network error: ContentNotFoundError'',
      literal ''Exit with code 1 due to network error: ProtocolUnknownError'',
      literal ''Exit with code 1 due to network error: UnknownContentError'',
      literal ''libpng warning: iCCP: known incorrect sRGB profile'']"

text \<open>The pattern added under a Wayland session; its two full stops are wildcards.\<close>

definition w_err :: "atom list" where
  "w_err =
     literal ''Warning: Ignoring XDG_SESSION_TYPE=wayland on Gnome'' @ [Dot]
     @ literal '' Use QT_QPA_PLATFORM=wayland to run on Wayland anyway'' @ [Dot]"

definition HEADER_MAPPING :: "(string \<times> string) list" where
  "HEADER_MAPPING = [(''Author'', ''From''), (''Title'', ''Subject''), (''X-email2pdf-To'', ''To'')]"

definition FORMATTED_HEADERS_TO_INCLUDE :: "string list" where
  "FORMATTED_HEADERS_TO_INCLUDE = [''Subject'', ''From'', ''To'', ''Date'']"

text \<open>The \<open>for error_pattern in WKHTMLTOPDF_ERRORS_IGNORE\<close> loop: each pattern in turn is
  deleted from what the patterns before it have left.\<close>

fun strip_patterns :: "atom list list \<Rightarrow> string \<Rightarrow> string" where
  "strip_patterns [] stripped_error = stripped_error"
| "strip_patterns (error_pattern # rest) stripped_error =
     strip_patterns rest (fst (re_subn_delete error_pattern stripped_error))"

fun add_metadata_loop :: "lib \<Rightarrow> part \<Rightarrow> (string \<times> string) list \<Rightarrow> (string \<times> string) list
                            \<Rightarrow> exn + (string \<times> string) list" where
  "add_metadata_loop L input_email [] obj = Inr obj"
| "add_metadata_loop L input_email ((key, hdr) # rest) obj =
     (case get_item input_email hdr of
        None \<Rightarrow> add_metadata_loop L input_email rest obj
      | Some v \<Rightarrow>
          (case get_utf8_header L v of
             Inl e \<Rightarrow> Inl e
           | Inr text \<Rightarrow> add_metadata_loop L input_email rest (AList.update key text obj)))"

text \<open>\<open>add_update_pdf_metadata\<close> reads the PDF, has the library merge the entries (their
  keys prefixed with \<open>/\<close>) into its info dictionary, and moves the result over the file.\<close>

definition add_update_pdf_metadata :: "lib \<Rightarrow> string \<Rightarrow> (string \<times> string) list \<Rightarrow> world \<Rightarrow> unit result" where
  "add_update_pdf_metadata L fname update_dictionary w =
     (case map_of (files w) fname of
        None \<Rightarrow> (Inl OSError, w)
      | Some pdf \<Rightarrow>
          (case pdf_set_info L pdf (map (\<lambda>(k, v). (''/'' @ k, v)) update_dictionary) of
             Inl e \<Rightarrow> (Inl e, w)
           | Inr pdf' \<Rightarrow> (Inr (), write_file fname pdf' w)))"

text \<open>The patterns the loop of \<open>output_body_pdf\<close> runs over: the frozenset, with \<open>w_err\<close>
  added under a Wayland session, in the order its iteration yields.\<close>

definition ignore_patterns :: "lib \<Rightarrow> atom list list" where
  "ignore_patterns L =
     frozenset_iter L (if xdg_session_type L = Some ''wayland''
                       then List.insert w_err WKHTMLTOPDF_ERRORS_IGNORE
                       else WKHTMLTOPDF_ERRORS_IGNORE)"

text \<open>The world once the rendering process has ended: it may have written the PDF.\<close>

definition rendered :: "lib \<Rightarrow> bytes \<Rightarrow> string \<Rightarrow> world \<Rightarrow> world" where
  "rendered L payload output_file_name w =
     (case written_pdf (wkhtmltopdf L payload) of
        None \<Rightarrow> w
      | Some pdf \<Rightarrow> write_file output_file_name pdf w)"

text \<open>
  \<open>output_body_pdf\<close>. The rendering process has run to its end when \<open>communicate\<close>
  returns, so the file it wrote, if any, is there whatever follows. The return code of a
  process is positive, zero, or negative (ended by a signal).
\<close>

definition output_body_pdf :: "lib \<Rightarrow> part \<Rightarrow> bytes \<Rightarrow> string \<Rightarrow> world \<Rightarrow> unit result" where
  "output_body_pdf L input_email payload output_file_name w =
     (let pr = wkhtmltopdf L payload;
          w1 = rendered L payload output_file_name w
      in if stdout pr \<noteq> [] then (Inl AssertionError, w1)
         else
           (case str_decode L ''utf-8'' (stderr pr) of
              Inl e \<Rightarrow> (Inl e, w1)
            | Inr error_text \<Rightarrow>
                (let patterns = ignore_patterns L;
                     original_error = rstrip error_text;
                     stripped_error = rstrip (strip_patterns patterns error_text)
                 in if returncode pr > 0 \<and> original_error = [] then
                      (Inl (FatalException (''wkhtmltopdf failed with exit code ''
                              @ str_nat (nat (returncode pr)) @ '', no error output.'')), w1)
                    else if returncode pr > 0 \<and> stripped_error \<noteq> [] then
                      (Inl (FatalException (''wkhtmltopdf failed with exit code ''
                              @ str_nat (nat (returncode pr)) @ '', stripped error: ''
                              @ stripped_error)), w1)
                    else if stripped_error \<noteq> [] then
                      (Inl (FatalException
                              (''wkhtmltopdf exited with rc = 0 but produced unknown stripped error output ''
                               @ stripped_error)), w1)
                    else
                      (case add_metadata_loop L input_email HEADER_MAPPING [] of
                         Inl e \<Rightarrow> (Inl e, w1)
                       | Inr obj \<Rightarrow>
                           add_update_pdf_metadata L output_file_name
                             (AList.update ''Producer'' ''email2pdf'' obj) w1))))"

section \<open>Remote images\<close>

definition can_url_fetch :: "lib \<Rightarrow> string \<Rightarrow> world \<Rightarrow> bool result" where
  "can_url_fetch L src w =
     (let encoded_src = replace_char (CHR '' '') ''%20'' src;
          w1 = w\<lparr>requests := requests w @ [encoded_src]\<rparr>
      in case urlopen L encoded_src of
           Opened \<Rightarrow> (Inr True, w1)
         | HTTPError \<Rightarrow> (Inr False, w1)
         | URLError \<Rightarrow> (Inr False, w1)
         | ValueError \<Rightarrow> (Inr False, w1)
         | FetchRaised e \<Rightarrow> (Inl e, w1))"

text \<open>The body of the \<open>for img in soup.find_all('img')\<close> loop, on the attributes of one
  \<open>img\<close> element; \<open>del img['src']\<close> removes the attribute.\<close>

definition check_img :: "lib \<Rightarrow> (string \<times> string) list \<Rightarrow> world \<Rightarrow> (string \<times> string) list result" where
  "check_img L attrs w =
     (case map_of attrs ''src'' of
        None \<Rightarrow> (Inr attrs, w)
      | Some src \<Rightarrow>
          (let lower_src = lower src
           in if lower_src = ''broken'' then (Inr (AList.delete ''src'' attrs), w)
              else if \<not> startswith lower_src ''data'' then
                (let found_blacklist = (\<exists>item \<in> set IMAGE_LOAD_BLACKLIST. contains item lower_src)
                 in if \<not> found_blacklist then
                      (case can_url_fetch L src w of
                         (Inl e, w1) \<Rightarrow> (Inl e, w1)
                       | (Inr ok, w1) \<Rightarrow>
                           if \<not> ok then
                             (Inr (AList.delete ''src'' attrs),
                              logger_warning (''Could not retrieve img URL '' @ src
                                              @ '', replacing with blank.'') w1)
                           else (Inr attrs, w1))
                    else (Inr (AList.delete ''src'' attrs), w))
              else (Inr attrs, w)))"

text \<open>\<open>find_all('img')\<close> yields the \<open>img\<close> elements in document order: an element before
  the elements inside it, and those before the elements after it.\<close>

fun check_imgs :: "lib \<Rightarrow> node \<Rightarrow> world \<Rightarrow> node result"
  and check_imgs_list :: "lib \<Rightarrow> node list \<Rightarrow> world \<Rightarrow> node list result" where
  "check_imgs L (Text t) w = (Inr (Text t), w)"
| "check_imgs L (Element tag attrs children) w =
     (case (if tag = ''img'' then check_img L attrs w else (Inr attrs, w)) of
        (Inl e, w1) \<Rightarrow> (Inl e, w1)
      | (Inr attrs', w1) \<Rightarrow>
          (case check_imgs_list L children w1 of
             (Inl e, w2) \<Rightarrow> (Inl e, w2)
           | (Inr children', w2) \<Rightarrow> (Inr (Element tag attrs' children'), w2)))"
| "check_imgs_list L [] w = (Inr [], w)"
| "check_imgs_list L (n # ns) w =
     (case check_imgs L n w of
        (Inl e, w1) \<Rightarrow> (Inl e, w1)
      | (Inr n', w1) \<Rightarrow>
          (case check_imgs_list L ns w1 of
             (Inl e, w2) \<Rightarrow> (Inl e, w2)
           | (Inr ns', w2) \<Rightarrow> (Inr (n' # ns'), w2)))"

definition remove_invalid_urls :: "lib \<Rightarrow> string \<Rightarrow> world \<Rightarrow> string result" where
  "remove_invalid_urls L payload w =
     (case check_imgs L (soup_parse L payload) w of
        (Inl e, w1) \<Rightarrow> (Inl e, w1)
      | (Inr soup, w1) \<Rightarrow> (Inr (soup_str L soup), w1))"

section \<open>The run\<close>

fun get_formatted_header_info_loop :: "lib \<Rightarrow> part \<Rightarrow> string list \<Rightarrow> string \<Rightarrow> exn + string" where
  "get_formatted_header_info_loop L input_email [] header_info = Inr header_info"
| "get_formatted_header_info_loop L input_email (header # rest) header_info =
     (if falsy (get_item input_email header)
      then get_formatted_header_info_loop L input_email rest header_info
      else
        (case get_utf8_header L (the (get_item input_email header)) of
           Inl e \<Rightarrow> Inl e
         | Inr decoded_string \<Rightarrow>
             get_formatted_header_info_loop L input_email rest
               (header_info @ ''<b>'' @ header @ ''</b>: '' @ html_escape decoded_string @ ''<br/>'')))"

definition get_formatted_header_info :: "lib \<Rightarrow> part \<Rightarrow> exn + string" where
  "get_formatted_header_info L input_email =
     (case get_formatted_header_info_loop L input_email FORMATTED_HEADERS_TO_INCLUDE [] of
        Inl e \<Rightarrow> Inl e
      | Inr header_info \<Rightarrow> Inr (header_info @ ''<br/>''))"

text \<open>The \<open>if args.body\<close> block of \<open>main\<close>: the body goes through \<open>remove_invalid_urls\<close>,
  gets the header lines in front when asked for, and is rendered.\<close>

definition print_body :: "lib \<Rightarrow> args \<Rightarrow> part \<Rightarrow> string option \<Rightarrow> string \<Rightarrow> world \<Rightarrow> unit result" where
  "print_body L a input_email payload output_file_name w =
     (case payload of
        None \<Rightarrow> (Inl TypeError, w)
      | Some html \<Rightarrow>
          (case remove_invalid_urls L html w of
             (Inl e, w1) \<Rightarrow> (Inl e, w1)
           | (Inr cleaned, w1) \<Rightarrow>
               (case (if headers a
                      then (case get_formatted_header_info L input_email of
                              Inl e \<Rightarrow> Inl e
                            | Inr header_info \<Rightarrow> Inr (header_info @ cleaned))
                      else Inr cleaned) of
                  Inl e \<Rightarrow> (Inl e, w1)
                | Inr final \<Rightarrow>
                    output_body_pdf L input_email (encode_utf8 L final) output_file_name w1)))"

text \<open>The message of the warning that ends the retry.\<close>

definition second_try_warning :: string where
  "second_try_warning =
     ''Second try: didn'' @ [CHR 0x27] @ ''t print body (on request) and still didn'' @ [CHR 0x27]
     @ ''t find any attachments even when looked for referenced ones with a filename. Giving up.''"

text \<open>
  The retry of \<open>main\<close>, entered when the body was not printed and the first pass counted
  no attachment. \<open>parts_already_used - parts_with_a_filename\<close> and \<open>set(...)\<close> around it
  each make a new set object.
\<close>

definition retry_attachments ::
  "lib \<Rightarrow> args \<Rightarrow> part \<Rightarrow> string \<Rightarrow> nat \<Rightarrow> world \<Rightarrow> nat result" where
  "retry_attachments L a input_email output_directory parts_already_used w =
     (let (parts_with_a_filename, w1) = filter_filenamed_parts L input_email parts_already_used w
      in case (if card (set_val w1 parts_with_a_filename) > 0 then
                 (let (difference, w2) =
                        new_set (set_val w1 parts_already_used - set_val w1 parts_with_a_filename) w1;
                      (copy, w3) = new_set (set_val w2 difference) w2
                  in handle_attachments L input_email output_directory (add_prefix_date a)
                       (ignore_floating_attachments a) copy w3)
               else (Inr 0, w1)) of
           (Inl e, w4) \<Rightarrow> (Inl e, w4)
         | (Inr number_of_attachments, w4) \<Rightarrow>
             if number_of_attachments = 0 then
               (Inr number_of_attachments, logger_warning second_try_warning w4)
             else (Inr number_of_attachments, w4))"

text \<open>
  \<open>main\<close> from the call of \<open>handle_message_body\<close> to its end, for a message parsed
  without defects. \<open>number_of_attachments\<close> is bound only when attachments are extracted.
  The result is \<open>warning_pending\<close>: whether the run logged a warning.
\<close>

definition main :: "lib \<Rightarrow> args \<Rightarrow> part \<Rightarrow> string \<Rightarrow> string \<Rightarrow> string \<Rightarrow> world \<Rightarrow> bool result" where
  "main L a input_email input_data output_directory output_file_name w =
     (case handle_message_body L a input_email w of
        (Inl e, w1) \<Rightarrow> (Inl e, w1)
      | (Inr (payload, parts_already_used), w1) \<Rightarrow>
          (case (if body a then print_body L a input_email payload output_file_name w1
                 else (Inr (), w1)) of
             (Inl e, w2) \<Rightarrow> (Inl e, w2)
           | (Inr u, w2) \<Rightarrow>
               (case (if attachments a then
                        (case handle_attachments L input_email output_directory (add_prefix_date a)
                                (ignore_floating_attachments a) parts_already_used w2 of
                           (Inl e, w3) \<Rightarrow> (Inl e, w3)
                         | (Inr n, w3) \<Rightarrow> (Inr (Some n), w3))
                      else (Inr None, w2)) of
                  (Inl e, w3) \<Rightarrow> (Inl e, w3)
                | (Inr number_of_attachments, w3) \<Rightarrow>
                    (case (if \<not> body a then
                             (case number_of_attachments of
                                None \<Rightarrow> (Inl UnboundLocalError, w3)
                              | Some n \<Rightarrow>
                                  if n = 0
                                  then retry_attachments L a input_email output_directory
                                         parts_already_used w3
                                  else (Inr n, w3))
                           else (Inr 0, w3)) of
                       (Inl e, w4) \<Rightarrow> (Inl e, w4)
                     | (Inr n, w4) \<Rightarrow>
                         if warning_pending w w4 then
                           (let original = get_modified_output_file_name output_file_name ''_original.eml''
                            in if open_ok L original
                               then (Inr True, write_file original input_data w4)
                               else (Inl OSError, w4))
                         else (Inr False, w4)))))"

section \<open>Reference definitions and sample inputs\<close>

text \<open>
  The header decoder as the specification words it: every segment is decoded on its own,
  with its declared charset, or with ASCII when it declares none; the texts are then
  joined with nothing between them.
\<close>

definition segment_text :: "lib \<Rightarrow> hchunk \<times> string option \<Rightarrow> exn + string" where
  "segment_text L seg =
     (case seg of
        (HBytes b, None) \<Rightarrow> str_decode L ''ASCII'' b
      | (HBytes b, Some cs) \<Rightarrow> str_decode L (if cs = [] then ''ASCII'' else cs) b
      | (HStr s, cs) \<Rightarrow> Inr s)"

fun decode_segments :: "lib \<Rightarrow> (hchunk \<times> string option) list \<Rightarrow> exn + string list" where
  "decode_segments L [] = Inr []"
| "decode_segments L (seg # segs) =
     (case segment_text L seg of
        Inl e \<Rightarrow> Inl e
      | Inr text \<Rightarrow>
          (case decode_segments L segs of
             Inl e \<Rightarrow> Inl e
           | Inr texts \<Rightarrow> Inr (text # texts)))"

text \<open>
  The treatment of one \<open>img\<close> element in words, on the lowercased \<open>src\<close>: \<open>broken\<close> is
  deleted; otherwise a value beginning with \<open>data\<close> stays; otherwise a value containing a
  blacklisted substring is deleted; otherwise the attribute stays if and only if the URL
  can be fetched. \<open>img_fetches\<close> and \<open>img_warnings\<close> are the fetches attempted and the
  warnings logged for the element; \<open>node_imgs\<close> lists the \<open>img\<close> elements of a document in
  document order and \<open>map_imgs\<close> rewrites their attributes.
\<close>

definition blacklisted :: "string \<Rightarrow> bool" where
  "blacklisted lower_src = (\<exists>item \<in> set IMAGE_LOAD_BLACKLIST. contains item lower_src)"

definition fetchable :: "lib \<Rightarrow> string \<Rightarrow> bool" where
  "fetchable L src = (urlopen L (replace_char (CHR '' '') ''%20'' src) = Opened)"

definition needs_fetch :: "string \<Rightarrow> bool" where
  "needs_fetch src =
     (lower src \<noteq> ''broken'' \<and> \<not> startswith (lower src) ''data'' \<and> \<not> blacklisted (lower src))"

definition img_rule :: "lib \<Rightarrow> (string \<times> string) list \<Rightarrow> (string \<times> string) list" where
  "img_rule L attrs =
     (case map_of attrs ''src'' of
        None \<Rightarrow> attrs
      | Some src \<Rightarrow>
          if lower src = ''broken'' then AList.delete ''src'' attrs
          else if startswith (lower src) ''data'' then attrs
          else if blacklisted (lower src) then AList.delete ''src'' attrs
          else if fetchable L src then attrs
          else AList.delete ''src'' attrs)"

definition img_fetches :: "(string \<times> string) list \<Rightarrow> string list" where
  "img_fetches attrs =
     (case map_of attrs ''src'' of
        None \<Rightarrow> []
      | Some src \<Rightarrow> if needs_fetch src then [replace_char (CHR '' '') ''%20'' src] else [])"

definition img_warnings :: "lib \<Rightarrow> (string \<times> string) list \<Rightarrow> string list" where
  "img_warnings L attrs =
     (case map_of attrs ''src'' of
        None \<Rightarrow> []
      | Some src \<Rightarrow>
          if needs_fetch src \<and> \<not> fetchable L src
          then [''Could not retrieve img URL '' @ src @ '', replacing with blank.''] else [])"

fun node_imgs :: "node \<Rightarrow> (string \<times> string) list list" where
  "node_imgs (Text t) = []"
| "node_imgs (Element tag attrs children) =
     (if tag = ''img'' then [attrs] else []) @ concat (map node_imgs children)"

fun map_imgs :: "((string \<times> string) list \<Rightarrow> (string \<times> string) list) \<Rightarrow> node \<Rightarrow> node" where
  "map_imgs f (Text t) = Text t"
| "map_imgs f (Element tag attrs children) =
     Element tag (if tag = ''img'' then f attrs else attrs) (map (map_imgs f) children)"

fun fetch_raises :: "fetch_result \<Rightarrow> bool" where
  "fetch_raises (FetchRaised e) = True"
| "fetch_raises r = False"

definition fetches_return :: "lib \<Rightarrow> (string \<times> string) list list \<Rightarrow> bool" where
  "fetches_return L imgs =
     list_all (\<lambda>attrs. list_all (\<lambda>url. \<not> fetch_raises (urlopen L url)) (img_fetches attrs)) imgs"

definition logged :: "string list \<Rightarrow> string list \<Rightarrow> world \<Rightarrow> world" where
  "logged urls msgs w = w\<lparr>requests := requests w @ urls, warnings := warnings w @ msgs\<rparr>"

text \<open>
  Inline image references in words. A token is resolved first by Content-ID, bare or in
  angle brackets, then by the \<open>name\<close> parameter of the content type. \<open>piece_text\<close> is what
  stands in the output for a piece of the text: the \<open>data:\<close> URI of the part found, with
  the sniffed type and the base64 text without CR, LF and TAB, or \<open>broken\<close> when no part
  is found. \<open>piece_parts\<close> and \<open>piece_warnings\<close> are the part consumed and the warning
  logged for a piece. A part is usable as an inline image when its transfer encoding is
  \<open>base64\<close> and it is not multipart. \<open>unpiece\<close> is the text a piece stands for.
\<close>

definition resolve :: "part \<Rightarrow> string \<Rightarrow> part_id option" where
  "resolve message cid =
     (case find_part_by_content_id message cid of
        Some i \<Rightarrow> Some i
      | None \<Rightarrow> find_part_by_content_type_name message cid)"

definition data_uri :: "lib \<Rightarrow> part \<Rightarrow> string" where
  "data_uri L p =
     ''data:'' @ magic_from_buffer L (decoded_payload (info p)) @ '';base64,''
     @ filter (\<lambda>c. c \<noteq> CHR 0x0D \<and> c \<noteq> CHR 0x0A \<and> c \<noteq> CHR 0x09) (raw_payload (info p))"

definition usable :: "part \<Rightarrow> bool" where
  "usable p = (get_item p ''Content-Transfer-Encoding'' = Some ''base64'' \<and> \<not> is_multipart p)"

fun piece_text :: "lib \<Rightarrow> part \<Rightarrow> piece \<Rightarrow> string" where
  "piece_text L message (Plain c) = [c]"
| "piece_text L message (Ref t) =
     (case resolve message t of
        None \<Rightarrow> ''broken''
      | Some i \<Rightarrow> data_uri L (walk message ! i))"

fun piece_parts :: "part \<Rightarrow> piece \<Rightarrow> part_id list" where
  "piece_parts message (Plain c) = []"
| "piece_parts message (Ref t) = (case resolve message t of None \<Rightarrow> [] | Some i \<Rightarrow> [i])"

fun piece_warnings :: "part \<Rightarrow> piece \<Rightarrow> string list" where
  "piece_warnings message (Plain c) = []"
| "piece_warnings message (Ref t) =
     (case resolve message t of
        None \<Rightarrow> [''Could not find image cid '' @ t @ '' in email content.'']
      | Some i \<Rightarrow> [])"

fun piece_usable :: "part \<Rightarrow> piece \<Rightarrow> bool" where
  "piece_usable message (Plain c) = True"
| "piece_usable message (Ref t) =
     (case resolve message t of None \<Rightarrow> True | Some i \<Rightarrow> usable (walk message ! i))"

definition consumed :: "nat \<Rightarrow> part_id list \<Rightarrow> string list \<Rightarrow> world \<Rightarrow> world" where
  "consumed a ids msgs w =
     w\<lparr>heap := (heap w)[a := heap w ! a \<union> set ids], warnings := warnings w @ msgs\<rparr>"

fun unpiece :: "piece \<Rightarrow> string" where
  "unpiece (Plain c) = [c]"
| "unpiece (Ref t) = ''cid:'' @ t"

text \<open>The parts of a set that carry a file name.\<close>

definition filenamed :: "part \<Rightarrow> part_id set \<Rightarrow> part_id set" where
  "filenamed message S = Set.filter (\<lambda>i. get_filename (info (walk message ! i)) \<noteq> None) S"

text \<open>The parts with a file name among those the iteration of a set yields.\<close>

definition iter_filenamed :: "lib \<Rightarrow> part \<Rightarrow> part_id set \<Rightarrow> part_id set" where
  "iter_filenamed L message S = filenamed message (set (set_iter L S))"

text \<open>A world keeps the set objects of an earlier one when its heap extends the earlier
  heap.\<close>

definition kept :: "world \<Rightarrow> world \<Rightarrow> bool" where
  "kept w w' = (\<exists>zs. heap w' = heap w @ zs)"

text \<open>
  A sample of the outside world, for evaluating the model on concrete inputs. Its
  decoders agree with Python on byte strings below 0x80 for the three charsets named;
  \<open>example_decode_header\<close> gives what \<open>email.header.decode_header\<close> returns for the two
  encoded headers listed and for headers without encoded words.
\<close>

definition example_decode :: "string \<Rightarrow> bytes \<Rightarrow> exn + string" where
  "example_decode cs b =
     (if lower cs \<in> set [''ascii'', ''utf-8'', ''iso-8859-1'']
      then (if list_all (\<lambda>c. code_point c < 128) b then Inr b else Inl UnicodeDecodeError)
      else Inl LookupError)"

definition example_decode_header :: "string \<Rightarrow> (hchunk \<times> string option) list" where
  "example_decode_header s =
     (if s = ''=?utf-8?q?report?=.pdf'' then [(HBytes ''report'', Some ''utf-8''), (HBytes ''.pdf'', None)]
      else if s = ''=?utf-8?q?a?= =?iso-8859-1?q?b?=''
      then [(HBytes ''a'', Some ''utf-8''), (HBytes ''b'', Some ''iso-8859-1'')]
      else [(HStr s, None)])"

text \<open>A plain serialiser of document trees, and the trees of two sample documents.\<close>

fun show_node :: "node \<Rightarrow> string" where
  "show_node (Text t) = t"
| "show_node (Element tag attrs children) =
     ''<'' @ tag @ concat (map (\<lambda>(k, v). '' '' @ k @ ''='' @ [CHR 0x22] @ v @ [CHR 0x22]) attrs) @ ''>''
     @ concat (map show_node children) @ ''</'' @ tag @ ''>''"

definition page :: "node list \<Rightarrow> node" where
  "page content = Element ''html'' [] [Element ''head'' [] [], Element ''body'' [] content]"

definition example_parse :: "string \<Rightarrow> node" where
  "example_parse s =
     (if s = ''<img src='' @ [CHR 0x22] @ ''data.trk.email/p.gif'' @ [CHR 0x22] @ ''>''
      then page [Element ''img'' [(''src'', ''data.trk.email/p.gif'')] []]
      else if s = ''<img src='' @ [CHR 0x22] @ ''http://example.com/a b.png'' @ [CHR 0x22] @ ''>''
      then page [Element ''img'' [(''src'', ''http://example.com/a b.png'')] []]
      else page [Text s])"

definition example_lib :: lib where
  "example_lib =
     \<lparr> decode_header = example_decode_header,
       str_decode = example_decode,
       str_decode_replace = (\<lambda>cs b. Inr (map (\<lambda>c. if code_point c < 128 then c else CHR ''?'') b)),
       encode_utf8 = (\<lambda>s. s),
       chardet_encoding = (\<lambda>b. None),
       magic_from_buffer = (\<lambda>b. ''image/png''),
       guess_all_extensions = (\<lambda>t. if t = ''image/png'' then [''.png'']
                                   else if t = ''image/jpeg'' then [''.jpe'', ''.jpeg'', ''.jpg'']
                                   else []),
       textwrap_fill = (\<lambda>line. line),
       urlopen = (\<lambda>u. if u = ''http://example.com/a.png'' then Opened else URLError),
       strftime_date = ''2026-11-03-'',
       set_iter = sorted_list_of_set,
       frozenset_iter = (\<lambda>ps. ps),
       open_ok = (\<lambda>path. True),
       soup_parse = example_parse,
       soup_str = show_node,
       wkhtmltopdf = (\<lambda>input. \<lparr> stdout = [], stderr = [], returncode = 0, written_pdf = Some ''%PDF'' \<rparr>),
       xdg_session_type = None,
       pdf_set_info = (\<lambda>pdf entries. Inr pdf) \<rparr>"

definition empty_world :: world where
  "empty_world = \<lparr> files = [], warnings = [], heap = [], requests = [], passes = [] \<rparr>"

definition plain_part :: "string \<Rightarrow> string \<Rightarrow> part" where
  "plain_part cte text =
     Leaf \<lparr> header_fields = [(''Content-Type'', ''text/plain''), (''Content-Transfer-Encoding'', cte)],
            get_content_type = ''text/plain'', get_content_charset = None, get_param_name = None,
            get_filename = None, raw_payload = text, decoded_payload = text \<rparr>"

definition image_part :: "(string \<times> string) list \<Rightarrow> string option \<Rightarrow> part" where
  "image_part extra fname =
     Leaf \<lparr> header_fields = (''Content-Type'', ''image/png'') # extra,
            get_content_type = ''image/png'', get_content_charset = None, get_param_name = None,
            get_filename = fname, raw_payload = ''aGk='', decoded_payload = ''hi'' \<rparr>"

definition mixed :: "part list \<Rightarrow> part" where
  "mixed cs =
     Multipart \<lparr> header_fields = [(''Content-Type'', ''multipart/mixed'')],
                 get_content_type = ''multipart/mixed'', get_content_charset = None,
                 get_param_name = None, get_filename = None, raw_payload = [], decoded_payload = [] \<rparr> cs"

text \<open>A message with an HTML body that refers to its image part, and to a part that does
  not exist.\<close>

definition html_part :: "string \<Rightarrow> part" where
  "html_part text =
     Leaf \<lparr> header_fields = [(''Content-Type'', ''text/html'')],
            get_content_type = ''text/html'', get_content_charset = None, get_param_name = None,
            get_filename = None, raw_payload = text, decoded_payload = text \<rparr>"

definition inline_image :: "string \<Rightarrow> string option \<Rightarrow> part" where
  "inline_image cte fname =
     image_part [(''Content-ID'', ''<img1>''), (''Content-Transfer-Encoding'', cte)] fname"

definition newsletter :: "string \<Rightarrow> string option \<Rightarrow> part" where
  "newsletter cte fname =
     mixed [html_part ''<img src=cid:img1> <img src=cid:none>'', inline_image cte fname]"

text \<open>The sample world with a rendering engine that writes on its output stream and ends
  with return code 1 and no diagnostic text.\<close>

definition chatty_engine_lib :: lib where
  "chatty_engine_lib =
     example_lib\<lparr>wkhtmltopdf :=
       (\<lambda>input. \<lparr> stdout = ''Loading page'', stderr = [], returncode = 1, written_pdf = None \<rparr>)\<rparr>"

text \<open>A run without body, and the worlds of the sample message after body resolution and
  after the first pass.\<close>

definition no_body_args :: args where
  "no_body_args = \<lparr> body = False, attachments = True, headers = False, add_prefix_date = False,
                     ignore_floating_attachments = False \<rparr>"

definition after_body :: world where
  "after_body = \<lparr> files = [], warnings = [''Could not find image cid none in email content.''],
                   heap = [{}, {2}], requests = [], passes = [] \<rparr>"

definition after_first_pass :: world where
  "after_first_pass = \<lparr> files = [], warnings = [''Could not find image cid none in email content.''],
                         heap = [{}, {2}, {}], requests = [], passes = [(1, {2})] \<rparr>"

text \<open>The sample world with a rendering engine that ends with the given diagnostic text and
  return code.\<close>

definition engine_lib :: "bytes \<Rightarrow> int \<Rightarrow> lib" where
  "engine_lib err rc =
     example_lib\<lparr>wkhtmltopdf :=
       (\<lambda>input. \<lparr> stdout = [], stderr = err, returncode = rc, written_pdf = Some ''%PDF'' \<rparr>)\<rparr>"

section \<open>Collision-free file names\<close>

lemma unique_loop_free: "\<not> isfile fs (unique_loop fs fp counter filename)"
  by (induction fs fp counter filename rule: unique_loop.induct)
     (subst unique_loop.simps, simp)

lemma unique_loop_least:
  assumes "isfile fs filename"
  shows "\<exists>n\<ge>counter. unique_loop fs fp counter filename = versioned fp n
           \<and> (\<forall>m. counter \<le> m \<and> m < n \<longrightarrow> isfile fs (versioned fp m))"
  using assms
proof (induction fs fp counter filename rule: unique_loop.induct)
  case (1 fs fp counter filename)
  have step: "unique_loop fs fp counter filename
                = unique_loop fs fp (counter + 1) (versioned fp counter)"
    using "1.prems" by (subst unique_loop.simps) simp
  show ?case
  proof (cases "isfile fs (versioned fp counter)")
    case True
    from "1.IH" [OF "1.prems" True] obtain n where n: "counter + 1 \<le> n"
      "unique_loop fs fp (counter + 1) (versioned fp counter) = versioned fp n"
      "\<forall>m. counter + 1 \<le> m \<and> m < n \<longrightarrow> isfile fs (versioned fp m)"
      by blast
    have "\<forall>m. counter \<le> m \<and> m < n \<longrightarrow> isfile fs (versioned fp m)"
    proof (intro allI impI)
      fix m assume m: "counter \<le> m \<and> m < n"
      show "isfile fs (versioned fp m)"
      proof (cases "m = counter")
        case True
        with \<open>isfile fs (versioned fp counter)\<close> show ?thesis by simp
      next
        case False
        with m n(3) show ?thesis by simp
      qed
    qed
    with n step show ?thesis
      by (intro exI [of _ n]) simp
  next
    case False
    then have "unique_loop fs fp (counter + 1) (versioned fp counter) = versioned fp counter"
      by (subst unique_loop.simps) simp
    with step show ?thesis
      by (intro exI [of _ counter]) auto
  qed
qed

text \<open>
  C7. For every path \<open>p\<close> and every filesystem, \<open>get_unique_version\<close> returns \<open>p\<close> itself
  when no file exists at \<open>p\<close>; otherwise it returns the path with \<open>_N\<close> inserted before
  the extension of \<open>p\<close>, for the least \<open>N\<close> in 1, 2, ... at which no file exists; and the
  path returned never names an existing file.
\<close>

theorem get_unique_version_least_free:
  "\<not> isfile fs (get_unique_version fs p)
   \<and> (\<not> isfile fs p \<longrightarrow> get_unique_version fs p = p)
   \<and> (isfile fs p \<longrightarrow>
        (\<exists>n\<ge>1. get_unique_version fs p = fst (splitext p) @ ''_'' @ str_nat n @ snd (splitext p)
           \<and> \<not> isfile fs (fst (splitext p) @ ''_'' @ str_nat n @ snd (splitext p))
           \<and> (\<forall>m. 1 \<le> m \<and> m < n \<longrightarrow>
                 isfile fs (fst (splitext p) @ ''_'' @ str_nat m @ snd (splitext p)))))"
proof (intro conjI impI)
  show free: "\<not> isfile fs (get_unique_version fs p)"
    by (simp add: get_unique_version_def unique_loop_free)
  show "get_unique_version fs p = p" if "\<not> isfile fs p"
    unfolding get_unique_version_def using that by (subst unique_loop.simps) simp
  show "\<exists>n\<ge>1. get_unique_version fs p = fst (splitext p) @ ''_'' @ str_nat n @ snd (splitext p)
           \<and> \<not> isfile fs (fst (splitext p) @ ''_'' @ str_nat n @ snd (splitext p))
           \<and> (\<forall>m. 1 \<le> m \<and> m < n \<longrightarrow>
                 isfile fs (fst (splitext p) @ ''_'' @ str_nat m @ snd (splitext p)))"
    if "isfile fs p"
  proof -
    from unique_loop_least [OF that, of 1 "splitext p"] obtain n where n: "1 \<le> n"
      "unique_loop fs (splitext p) 1 p = versioned (splitext p) n"
      "\<forall>m. 1 \<le> m \<and> m < n \<longrightarrow> isfile fs (versioned (splitext p) m)"
      by blast
    from n(2) free have "\<not> isfile fs (versioned (splitext p) n)"
      by (simp add: get_unique_version_def)
    with n show ?thesis
      unfolding versioned_def get_unique_version_def by (intro exI [of _ n]) simp
  qed
qed

theorem get_unique_version_least_free_witness:
  "isfile [(''/out/x.txt'', ''a''), (''/out/x_1.txt'', ''b'')] ''/out/x.txt''
   \<and> get_unique_version [(''/out/x.txt'', ''a''), (''/out/x_1.txt'', ''b'')] ''/out/x.txt''
       = ''/out/x_2.txt''
   \<and> \<not> isfile [(''/out/x.txt'', ''a''), (''/out/x_1.txt'', ''b'')]
         (get_unique_version [(''/out/x.txt'', ''a''), (''/out/x_1.txt'', ''b'')] ''/out/x.txt'')"
proof -
  have ex: "isfile [(''/out/x.txt'', ''a''), (''/out/x_1.txt'', ''b'')] ''/out/x.txt''"
    by (simp add: isfile_def)
  have val: "get_unique_version [(''/out/x.txt'', ''a''), (''/out/x_1.txt'', ''b'')] ''/out/x.txt''
               = ''/out/x_2.txt''"
    by code_simp
  from get_unique_version_least_free
         [of "[(''/out/x.txt'', ''a''), (''/out/x_1.txt'', ''b'')]" "''/out/x.txt''"]
  have "\<not> isfile [(''/out/x.txt'', ''a''), (''/out/x_1.txt'', ''b'')]
         (get_unique_version [(''/out/x.txt'', ''a''), (''/out/x_1.txt'', ''b'')] ''/out/x.txt'')"
    by blast
  with ex val show ?thesis by blast
qed

section \<open>Header decoding\<close>

lemma get_utf8_header_loop_concat:
  "get_utf8_header_loop L segs hdr =
     (case decode_segments L segs of Inl e \<Rightarrow> Inl e | Inr texts \<Rightarrow> Inr (hdr @ concat texts))"
proof (induction L segs hdr rule: get_utf8_header_loop.induct)
  case (1 L hdr)
  show ?case by simp
next
  case (2 L b cs es hdr)
  show ?case
  proof (cases "str_decode L (if cs = None \<or> cs = Some [] then ''ASCII'' else the cs) b")
    case (Inl e)
    then show ?thesis
      by (cases cs) (auto simp: segment_text_def split: if_splits)
  next
    case (Inr s)
    then have seg: "segment_text L (HBytes b, cs) = Inr s"
      by (cases cs) (auto simp: segment_text_def split: if_splits)
    from 2 [OF Inr] Inr seg show ?thesis
      by (simp split: sum.splits)
  qed
next
  case (3 L s cs es hdr)
  then show ?case
    by (simp add: segment_text_def split: sum.splits)
qed

text \<open>
  C6. For every header value, \<open>get_utf8_header\<close> returns the texts of its segments, each
  decoded with its own charset (ASCII when it declares none), joined in order with
  nothing between them; when a segment cannot be decoded, the decoder's exception of the
  first such segment escapes.
\<close>

theorem get_utf8_header_concat:
  "get_utf8_header L header =
     (case decode_segments L (decode_header L header) of
        Inl e \<Rightarrow> Inl e
      | Inr texts \<Rightarrow> Inr (concat texts))"
  by (simp add: get_utf8_header_def get_utf8_header_loop_concat split: sum.splits)

theorem get_utf8_header_concat_witness:
  "decode_segments example_lib (decode_header example_lib ''=?utf-8?q?a?= =?iso-8859-1?q?b?='')
     = Inr [''a'', ''b'']
   \<and> get_utf8_header example_lib ''=?utf-8?q?a?= =?iso-8859-1?q?b?='' = Inr ''ab''"
proof -
  have segs: "decode_segments example_lib
                (decode_header example_lib ''=?utf-8?q?a?= =?iso-8859-1?q?b?='') = Inr [''a'', ''b'']"
    by code_simp
  from get_utf8_header_concat [of example_lib "''=?utf-8?q?a?= =?iso-8859-1?q?b?=''"] segs
  show ?thesis by simp
qed

text \<open>
  C5. The file name of an attachment whose declared name carries encoded words should be
  the header decoder's text of that name. For the declared name
  \<open>=?utf-8?q?report?=.pdf\<close> the header decoder gives \<open>report.pdf\<close>, while
  \<open>extract_part_filename\<close> decodes the first segment only and gives \<open>report\<close>.
\<close>

theorem extract_part_filename_first_segment_only:
  "extract_part_filename example_lib (image_part [] (Some ''=?utf-8?q?report?=.pdf''))
     = Inr (Some ''report'')
   \<and> get_utf8_header example_lib ''=?utf-8?q?report?=.pdf'' = Inr ''report.pdf''"
  by code_simp

section \<open>Counting attachments\<close>

text \<open>
  C1. \<open>handle_attachments\<close> should return the number of files written. For a message of
  a plain text part and one image part without a file name, with
  \<open>ignore_floating_attachments\<close> set, it writes no file and returns 1.
\<close>

theorem handle_attachments_counts_skipped:
  "fst (handle_attachments example_lib (mixed [plain_part ''7bit'' ''hello'', image_part [] None])
          ''/out'' False True 0 (snd (new_set {} empty_world))) = Inr 1
   \<and> files (snd (handle_attachments example_lib
                   (mixed [plain_part ''7bit'' ''hello'', image_part [] None])
                   ''/out'' False True 0 (snd (new_set {} empty_world)))) = []"
  by code_simp

section \<open>Plain text bodies\<close>

text \<open>
  C3. Every plain text body should come out wrapped, escaped and enclosed in the HTML
  envelope. A part with the transfer encoding \<open>8bit\<close> and the text \<open>a<b\<close> comes out as
  \<open>a<b\<close>, while the same text under \<open>7bit\<close> comes out escaped inside the envelope.
\<close>

theorem handle_plain_message_body_8bit_raw:
  "fst (handle_plain_message_body example_lib (plain_part ''8bit'' ''a<b'') empty_world) = Inr ''a<b''
   \<and> fst (handle_plain_message_body example_lib (plain_part ''7bit'' ''a<b'') empty_world)
       = Inr (''<html><body><pre>'' @ [CHR 0x0A] @ ''a&lt;b'' @ [CHR 0x0A] @ ''</pre></body></html>'')"
  by code_simp

section \<open>Failures of the rendering engine\<close>

text \<open>
  C2, as stated, fails: a return code of 1 with the diagnostic line
  \<open>Exit with code 1 due to network error: ContentNotFoundError\<close> raises nothing, and under
  return code 0 the line \<open>QFont::setPixelSize: Pixel size <= 0 (0)\<close> leaves a line break
  after the deletion of the patterns, which is not empty, and raises nothing either.
\<close>

theorem output_body_pdf_benign_counterexample:
  "returncode (wkhtmltopdf
       (engine_lib (''Exit with code 1 due to network error: ContentNotFoundError'' @ [CHR 0x0A]) 1)
       ''<p>x</p>'') \<noteq> 0
   \<and> fst (output_body_pdf
        (engine_lib (''Exit with code 1 due to network error: ContentNotFoundError'' @ [CHR 0x0A]) 1)
        (mixed []) ''<p>x</p>'' ''/out/m.pdf'' empty_world) = Inr ()
   \<and> returncode (wkhtmltopdf
       (engine_lib (''QFont::setPixelSize: Pixel size <= 0 (0)'' @ [CHR 0x0A]) 0) ''<p>x</p>'') = 0
   \<and> strip_patterns WKHTMLTOPDF_ERRORS_IGNORE (''QFont::setPixelSize: Pixel size <= 0 (0)'' @ [CHR 0x0A])
       = [CHR 0x0A]
   \<and> fst (output_body_pdf
        (engine_lib (''QFont::setPixelSize: Pixel size <= 0 (0)'' @ [CHR 0x0A]) 0)
        (mixed []) ''<p>x</p>'' ''/out/m.pdf'' empty_world) = Inr ()"
  by code_simp

text \<open>
  C2, amended. \<open>output_body_pdf\<close> first asserts that the engine wrote nothing on its
  output stream, and decodes the diagnostic bytes as UTF-8: an engine that wrote output
  ends the call in an \<open>AssertionError\<close>, and diagnostic bytes that do not decode end it in
  the decoder's exception, whatever the return code. When the output stream is empty
  and the diagnostic text decodes: \<open>output_body_pdf\<close> raises \<open>FatalException\<close> when the
  return code is positive and the diagnostic text is blank, and, whatever the return
  code, when the diagnostic text is not blank after the matches of the benign patterns
  are deleted and the white space at its end is stripped. When that rest is blank and
  either the return code is 0 or it is positive with a diagnostic text that is not
  blank, nothing is raised for the engine's result, and the metadata step runs.
\<close>

theorem output_body_pdf_fatal:
  "(stdout (wkhtmltopdf L payload) \<noteq> [] \<longrightarrow>
      fst (output_body_pdf L input_email payload output_file_name w) = Inl AssertionError)
   \<and> (stdout (wkhtmltopdf L payload) = []
        \<and> str_decode L ''utf-8'' (stderr (wkhtmltopdf L payload)) = Inl e \<longrightarrow>
      fst (output_body_pdf L input_email payload output_file_name w) = Inl e)
   \<and> (stdout (wkhtmltopdf L payload) = []
        \<and> str_decode L ''utf-8'' (stderr (wkhtmltopdf L payload)) = Inr error_text \<longrightarrow>
      (returncode (wkhtmltopdf L payload) > 0 \<and> rstrip error_text = [] \<longrightarrow>
         fst (output_body_pdf L input_email payload output_file_name w)
           = Inl (FatalException (''wkhtmltopdf failed with exit code ''
                    @ str_nat (nat (returncode (wkhtmltopdf L payload))) @ '', no error output.'')))
      \<and> (rstrip (strip_patterns (ignore_patterns L) error_text) \<noteq> [] \<longrightarrow>
           (\<exists>msg. fst (output_body_pdf L input_email payload output_file_name w)
                    = Inl (FatalException msg)))
      \<and> (rstrip (strip_patterns (ignore_patterns L) error_text) = []
           \<and> (returncode (wkhtmltopdf L payload) = 0
                \<or> returncode (wkhtmltopdf L payload) > 0 \<and> rstrip error_text \<noteq> []) \<longrightarrow>
           output_body_pdf L input_email payload output_file_name w
             = (case add_metadata_loop L input_email HEADER_MAPPING [] of
                  Inl e \<Rightarrow> (Inl e, rendered L payload output_file_name w)
                | Inr obj \<Rightarrow>
                    add_update_pdf_metadata L output_file_name
                      (AList.update ''Producer'' ''email2pdf'' obj)
                      (rendered L payload output_file_name w))))"
proof (intro conjI impI)
  assume "stdout (wkhtmltopdf L payload) \<noteq> []"
  then show "fst (output_body_pdf L input_email payload output_file_name w) = Inl AssertionError"
    by (simp add: output_body_pdf_def Let_def)
next
  assume "stdout (wkhtmltopdf L payload) = []
          \<and> str_decode L ''utf-8'' (stderr (wkhtmltopdf L payload)) = Inl e"
  then show "fst (output_body_pdf L input_email payload output_file_name w) = Inl e"
    by (simp add: output_body_pdf_def Let_def)
next
  assume h: "stdout (wkhtmltopdf L payload) = []
             \<and> str_decode L ''utf-8'' (stderr (wkhtmltopdf L payload)) = Inr error_text"
  {
    assume "returncode (wkhtmltopdf L payload) > 0 \<and> rstrip error_text = []"
    with h show "fst (output_body_pdf L input_email payload output_file_name w)
           = Inl (FatalException (''wkhtmltopdf failed with exit code ''
                    @ str_nat (nat (returncode (wkhtmltopdf L payload))) @ '', no error output.''))"
      by (simp add: output_body_pdf_def Let_def)
  }
  {
    assume "rstrip (strip_patterns (ignore_patterns L) error_text) \<noteq> []"
    with h show "\<exists>msg. fst (output_body_pdf L input_email payload output_file_name w)
                    = Inl (FatalException msg)"
      by (simp add: output_body_pdf_def Let_def)
  }
  {
    assume "rstrip (strip_patterns (ignore_patterns L) error_text) = []
           \<and> (returncode (wkhtmltopdf L payload) = 0
                \<or> returncode (wkhtmltopdf L payload) > 0 \<and> rstrip error_text \<noteq> [])"
    with h show "output_body_pdf L input_email payload output_file_name w
             = (case add_metadata_loop L input_email HEADER_MAPPING [] of
                  Inl e \<Rightarrow> (Inl e, rendered L payload output_file_name w)
                | Inr obj \<Rightarrow>
                    add_update_pdf_metadata L output_file_name
                      (AList.update ''Producer'' ''email2pdf'' obj)
                      (rendered L payload output_file_name w))"
      by (auto simp: output_body_pdf_def Let_def split: sum.splits)
  }
qed

theorem output_body_pdf_fatal_witness:
  "fst (output_body_pdf (engine_lib [] 1) (mixed []) ''<p>x</p>'' ''/out/m.pdf'' empty_world)
     = Inl (FatalException ''wkhtmltopdf failed with exit code 1, no error output.'')
   \<and> fst (output_body_pdf (engine_lib [CHR 0xFF] 1) (mixed []) ''<p>x</p>'' ''/out/m.pdf'' empty_world)
       = Inl UnicodeDecodeError
   \<and> fst (output_body_pdf chatty_engine_lib (mixed []) ''<p>x</p>'' ''/out/m.pdf'' empty_world)
       = Inl AssertionError"
proof -
  have a: "stdout (wkhtmltopdf (engine_lib [] 1) ''<p>x</p>'') = []
           \<and> str_decode (engine_lib [] 1) ''utf-8'' (stderr (wkhtmltopdf (engine_lib [] 1) ''<p>x</p>''))
               = Inr []"
    by code_simp
  have c: "returncode (wkhtmltopdf (engine_lib [] 1) ''<p>x</p>'') > 0 \<and> rstrip [] = []"
    by code_simp
  have d: "''wkhtmltopdf failed with exit code ''
             @ str_nat (nat (returncode (wkhtmltopdf (engine_lib [] 1) ''<p>x</p>''))) @ '', no error output.''
           = ''wkhtmltopdf failed with exit code 1, no error output.''"
    by code_simp
  have first: "fst (output_body_pdf (engine_lib [] 1) (mixed []) ''<p>x</p>'' ''/out/m.pdf'' empty_world)
                 = Inl (FatalException ''wkhtmltopdf failed with exit code 1, no error output.'')"
    using output_body_pdf_fatal [of "engine_lib [] 1" "''<p>x</p>''" "mixed []" "''/out/m.pdf''"
            empty_world _ "[]", THEN conjunct2, THEN conjunct2, THEN mp, OF a,
            THEN conjunct1, THEN mp, OF c]
    unfolding d .
  have u: "stdout (wkhtmltopdf (engine_lib [CHR 0xFF] 1) ''<p>x</p>'') = []
           \<and> str_decode (engine_lib [CHR 0xFF] 1) ''utf-8''
                (stderr (wkhtmltopdf (engine_lib [CHR 0xFF] 1) ''<p>x</p>'')) = Inl UnicodeDecodeError"
    by code_simp
  have second: "fst (output_body_pdf (engine_lib [CHR 0xFF] 1) (mixed []) ''<p>x</p>'' ''/out/m.pdf''
                       empty_world) = Inl UnicodeDecodeError"
    by (rule output_body_pdf_fatal [of "engine_lib [CHR 0xFF] 1" "''<p>x</p>''" "mixed []"
               "''/out/m.pdf''" empty_world UnicodeDecodeError, THEN conjunct2, THEN conjunct1,
               THEN mp, OF u])
  have n: "stdout (wkhtmltopdf chatty_engine_lib ''<p>x</p>'') \<noteq> []"
    by code_simp
  have third: "fst (output_body_pdf chatty_engine_lib (mixed []) ''<p>x</p>'' ''/out/m.pdf'' empty_world)
                 = Inl AssertionError"
    by (rule output_body_pdf_fatal [of chatty_engine_lib "''<p>x</p>''" "mixed []" "''/out/m.pdf''"
               empty_world, THEN conjunct1, THEN mp, OF n])
  from first second third show ?thesis by (intro conjI)
qed

section \<open>Remote images\<close>

lemma logged_nil [simp]: "logged [] [] w = w"
  by (simp add: logged_def)

lemma logged_logged [simp]: "logged us ms (logged us' ms' w) = logged (us' @ us) (ms' @ ms) w"
  by (simp add: logged_def)

lemma check_img_rule:
  assumes "list_all (\<lambda>url. \<not> fetch_raises (urlopen L url)) (img_fetches attrs)"
  shows "check_img L attrs w = (Inr (img_rule L attrs), logged (img_fetches attrs) (img_warnings L attrs) w)"
proof (cases "map_of attrs ''src''")
  case None
  then show ?thesis
    by (simp add: check_img_def img_rule_def img_fetches_def img_warnings_def)
next
  case (Some src)
  show ?thesis
  proof (cases "needs_fetch src")
    case False
    with Some show ?thesis
      by (auto simp: check_img_def img_rule_def img_fetches_def img_warnings_def needs_fetch_def
            blacklisted_def Let_def)
  next
    case True
    with Some assms have nr: "\<not> fetch_raises (urlopen L (replace_char (CHR '' '') ''%20'' src))"
      by (simp add: img_fetches_def)
    from True have t: "lower src \<noteq> ''broken''" "\<not> startswith (lower src) ''data''"
      "\<not> (\<exists>item \<in> set IMAGE_LOAD_BLACKLIST. contains item (lower src))"
      by (simp_all add: needs_fetch_def blacklisted_def)
    show ?thesis
    proof (cases "urlopen L (replace_char (CHR '' '') ''%20'' src)")
      case (FetchRaised e)
      with nr show ?thesis by simp
    qed (use Some True t in \<open>simp_all add: check_img_def img_rule_def img_fetches_def img_warnings_def
            can_url_fetch_def fetchable_def blacklisted_def Let_def logged_def logger_warning_def\<close>)
  qed
qed

lemma check_imgs_map:
  "fetches_return L (node_imgs n) \<Longrightarrow>
     check_imgs L n w
       = (Inr (map_imgs (img_rule L) n),
          logged (concat (map img_fetches (node_imgs n)))
                 (concat (map (img_warnings L) (node_imgs n))) w)"
  and check_imgs_list_map:
  "fetches_return L (concat (map node_imgs ns)) \<Longrightarrow>
     check_imgs_list L ns w
       = (Inr (map (map_imgs (img_rule L)) ns),
          logged (concat (map img_fetches (concat (map node_imgs ns))))
                 (concat (map (img_warnings L) (concat (map node_imgs ns)))) w)"
proof (induction L n w and L ns w rule: check_imgs_check_imgs_list.induct)
  case (1 L t w)
  show ?case by simp
next
  case (2 L tag attrs children w)
  show ?case
  proof (cases "tag = ''img''")
    case True
    from "2.prems" True have a: "list_all (\<lambda>url. \<not> fetch_raises (urlopen L url)) (img_fetches attrs)"
      and rest: "fetches_return L (concat (map node_imgs children))"
      by (simp_all add: fetches_return_def)
    have step: "check_img L attrs w = (Inr (img_rule L attrs), logged (img_fetches attrs) (img_warnings L attrs) w)"
      by (rule check_img_rule [OF a])
    have "(if tag = ''img'' then check_img L attrs w else (Inr attrs, w))
            = (Inr (img_rule L attrs), logged (img_fetches attrs) (img_warnings L attrs) w)"
      using True step by simp
    from "2.IH" [OF this [symmetric] refl rest] True step show ?thesis
      by simp
  next
    case False
    from "2.prems" False have rest: "fetches_return L (concat (map node_imgs children))"
      by (simp_all add: fetches_return_def)
    have "(if tag = ''img'' then check_img L attrs w else (Inr attrs, w)) = (Inr attrs, w)"
      using False by simp
    from "2.IH" [OF this [symmetric] refl rest] False show ?thesis
      by simp
  qed
next
  case (3 L w)
  show ?case by simp
next
  case (4 L n ns w)
  from "4.prems" have hd: "fetches_return L (node_imgs n)"
    and tl: "fetches_return L (concat (map node_imgs ns))"
    by (simp_all add: fetches_return_def)
  note a = "4.IH"(1) [OF hd]
  from "4.IH"(2) [OF a [symmetric] refl tl] a show ?case
    by simp
qed

text \<open>
  C10, as stated, fails: the \<open>src\<close> value \<open>data.trk.email/p.gif\<close> contains the blacklisted
  substring \<open>trk.email\<close>, and the attribute is kept, because the value begins with
  \<open>data\<close>.
\<close>

theorem remove_invalid_urls_data_prefix_counterexample:
  "contains ''trk.email'' (lower ''data.trk.email/p.gif'')
   \<and> remove_invalid_urls example_lib
        (''<img src='' @ [CHR 0x22] @ ''data.trk.email/p.gif'' @ [CHR 0x22] @ ''>'') empty_world
       = (Inr (soup_str example_lib
                 (page [Element ''img'' [(''src'', ''data.trk.email/p.gif'')] []])),
          empty_world)"
  by code_simp

text \<open>
  C10, amended. When no fetch raises an exception other than the three that
  \<open>can_url_fetch\<close> catches, \<open>remove_invalid_urls\<close> returns the document in which every
  \<open>img\<close> element is treated by \<open>img_rule\<close>: on the lowercased \<open>src\<close>, \<open>broken\<close> is deleted;
  otherwise a value beginning with \<open>data\<close> is left as it is; otherwise a value that
  contains \<open>emltrk.com\<close>, \<open>trk.email\<close> or \<open>shim.gif\<close> is deleted; otherwise the attribute is
  kept if and only if the URL, its spaces percent-encoded, can be fetched. The fetches
  attempted are those of the last case only, in document order, and a warning is logged
  for each of them that fails.
\<close>

theorem remove_invalid_urls_rule:
  assumes "fetches_return L (node_imgs (soup_parse L payload))"
  shows "remove_invalid_urls L payload w
           = (Inr (soup_str L (map_imgs (img_rule L) (soup_parse L payload))),
              logged (concat (map img_fetches (node_imgs (soup_parse L payload))))
                     (concat (map (img_warnings L) (node_imgs (soup_parse L payload)))) w)"
  by (simp add: remove_invalid_urls_def check_imgs_map [OF assms])

theorem remove_invalid_urls_rule_witness:
  "fetches_return example_lib
     (node_imgs (soup_parse example_lib
        (''<img src='' @ [CHR 0x22] @ ''http://example.com/a b.png'' @ [CHR 0x22] @ ''>'')))
   \<and> remove_invalid_urls example_lib
        (''<img src='' @ [CHR 0x22] @ ''http://example.com/a b.png'' @ [CHR 0x22] @ ''>'') empty_world
       = (Inr (soup_str example_lib (page [Element ''img'' [] []])),
          empty_world\<lparr>requests := [''http://example.com/a%20b.png''],
                        warnings := [''Could not retrieve img URL http://example.com/a b.png, replacing with blank.'']\<rparr>)"
proof -
  let ?p = "''<img src='' @ [CHR 0x22] @ ''http://example.com/a b.png'' @ [CHR 0x22] @ ''>''"
  have h: "fetches_return example_lib (node_imgs (soup_parse example_lib ?p))"
    by code_simp
  have v: "(Inr (soup_str example_lib (map_imgs (img_rule example_lib) (soup_parse example_lib ?p)))
              :: exn + string,
            logged (concat (map img_fetches (node_imgs (soup_parse example_lib ?p))))
                   (concat (map (img_warnings example_lib) (node_imgs (soup_parse example_lib ?p))))
                   empty_world)
           = (Inr (soup_str example_lib (page [Element ''img'' [] []])),
              empty_world\<lparr>requests := [''http://example.com/a%20b.png''],
                            warnings := [''Could not retrieve img URL http://example.com/a b.png, replacing with blank.'']\<rparr>)"
    by code_simp
  from remove_invalid_urls_rule [OF h, of empty_world] v h show ?thesis
    by simp
qed

section \<open>Inline images\<close>

lemma consumed_nil [simp]: "consumed a [] [] w = w"
  by (simp add: consumed_def)

lemma consumed_consumed [simp]:
  "a < length (heap w) \<Longrightarrow>
     consumed a ids' msgs' (consumed a ids msgs w) = consumed a (ids @ ids') (msgs @ msgs') w"
  by (simp add: consumed_def Un_assoc)

lemma heap_consumed [simp]: "length (heap (consumed a ids msgs w)) = length (heap w)"
  by (simp add: consumed_def)

lemma cid_replace_piece:
  assumes "piece_usable message (Ref t)"
  shows "cid_replace L message a t w
           = (Inr (piece_text L message (Ref t)),
              consumed a (piece_parts message (Ref t)) (piece_warnings message (Ref t)) w)"
proof (cases "resolve message t")
  case None
  then show ?thesis
    by (simp add: cid_replace_def resolve_def consumed_def logger_warning_def split: option.splits)
next
  case (Some i)
  with assms have u: "get_item (walk message ! i) ''Content-Transfer-Encoding'' = Some ''base64''"
    "\<not> is_multipart (walk message ! i)"
    by (simp_all add: usable_def)
  from Some have r: "(case find_part_by_content_id message t of
                        None \<Rightarrow> find_part_by_content_type_name message t
                      | Some i \<Rightarrow> Some i) = Some i"
    by (simp add: resolve_def split: option.splits)
  show ?thesis
    unfolding cid_replace_def r
    using u Some
    by (simp add: Let_def get_payload_raw_def get_payload_decoded_def get_mime_type_def data_uri_def
          consumed_def set_add_def)
qed

lemma re_sub_pieces:
  assumes "list_all (piece_usable message) ps" and "a < length (heap w)"
  shows "re_sub (cid_replace L message a) ps w
           = (Inr (concat (map (piece_text L message) ps)),
              consumed a (concat (map (piece_parts message) ps))
                         (concat (map (piece_warnings message) ps)) w)"
  using assms
proof (induction ps arbitrary: w)
  case Nil
  show ?case by simp
next
  case (Cons p ps)
  show ?case
  proof (cases p)
    case (Plain c)
    with Cons show ?thesis by simp
  next
    case (Ref t)
    with Cons.prems have u: "piece_usable message (Ref t)" and rest: "list_all (piece_usable message) ps"
      by simp_all
    let ?w1 = "consumed a (piece_parts message (Ref t)) (piece_warnings message (Ref t)) w"
    have len: "a < length (heap ?w1)"
      using Cons.prems(2) by simp
    from Cons.IH [OF rest len] cid_replace_piece [OF u, of L a w] Ref Cons.prems(2)
    show ?thesis by simp
  qed
qed


lemma cid_replace_unusable:
  assumes "\<not> piece_usable message (Ref t)"
  shows "fst (cid_replace L message a t w) \<in> {Inl AssertionError, Inl TypeError}"
proof -
  from assms obtain i where i: "resolve message t = Some i" and nu: "\<not> usable (walk message ! i)"
    by (auto split: option.splits)
  from i have r: "(case find_part_by_content_id message t of
                        None \<Rightarrow> find_part_by_content_type_name message t
                      | Some i \<Rightarrow> Some i) = Some i"
    by (simp add: resolve_def split: option.splits)
  show ?thesis
    unfolding cid_replace_def r using nu
    by (auto simp: usable_def Let_def get_payload_raw_def)
qed

lemma re_sub_unusable:
  assumes "\<not> list_all (piece_usable message) ps" and "a < length (heap w)"
  shows "fst (re_sub (cid_replace L message a) ps w) \<in> {Inl AssertionError, Inl TypeError}"
  using assms
proof (induction ps arbitrary: w)
  case Nil
  then show ?case by simp
next
  case (Cons p ps)
  show ?case
  proof (cases p)
    case (Plain c)
    with Cons.prems have "\<not> list_all (piece_usable message) ps" by simp
    from Cons.IH [OF this Cons.prems(2)] Plain show ?thesis
      by (auto split: prod.splits sum.splits)
  next
    case (Ref t)
    show ?thesis
    proof (cases "piece_usable message (Ref t)")
      case True
      with Cons.prems Ref have rest: "\<not> list_all (piece_usable message) ps" by simp
      let ?w1 = "consumed a (piece_parts message (Ref t)) (piece_warnings message (Ref t)) w"
      have len: "a < length (heap ?w1)"
        using Cons.prems(2) by simp
      from Cons.IH [OF rest len] cid_replace_piece [OF True, of L a w] Ref show ?thesis
        by (auto split: prod.splits sum.splits)
    next
      case False
      from cid_replace_unusable [OF False, of L a w] Ref show ?thesis
        by (auto split: prod.splits sum.splits)
    qed
  qed
qed

lemma cid_split_unsplit: "concat (map unpiece (cid_split s)) = s"
proof (induction s rule: cid_split.induct)
  case 1
  show ?case by simp
next
  case (2 c cs)
  show ?case
  proof (cases "startswith (c # cs) ''cid:'' \<and> takeWhile is_cid_char (drop 3 cs) \<noteq> []")
    case True
    then have pre: "take 4 (c # cs) = ''cid:''"
      by (simp add: startswith_def eval_nat_numeral)
    have a: "c # cs = ''cid:'' @ drop 4 (c # cs)"
      using pre by (metis append_take_drop_id)
    have b: "drop 4 (c # cs) = drop 3 cs" by simp
    have full: "''cid:'' @ takeWhile is_cid_char (drop 3 cs) @ dropWhile is_cid_char (drop 3 cs) = c # cs"
      using a b by (metis takeWhile_dropWhile_id)
    have "concat (map unpiece (cid_split (c # cs)))
            = ''cid:'' @ takeWhile is_cid_char (drop 3 cs)
              @ concat (map unpiece (cid_split (dropWhile is_cid_char (drop 3 cs))))"
      using True by simp
    also have "\<dots> = ''cid:'' @ takeWhile is_cid_char (drop 3 cs) @ dropWhile is_cid_char (drop 3 cs)"
      using "2.IH"(1) [OF True] by (simp only:)
    finally show ?thesis
      using full by (simp only:)
  next
    case False
    with "2.IH"(2) show ?thesis by auto
  qed
qed

lemma cid_split_refs:
  "Ref t \<in> set (cid_split s) \<Longrightarrow> t \<noteq> [] \<and> list_all is_cid_char t"
proof (induction s rule: cid_split.induct)
  case 1
  then show ?case by simp
next
  case (2 c cs)
  show ?case
  proof (cases "startswith (c # cs) ''cid:'' \<and> takeWhile is_cid_char (drop 3 cs) \<noteq> []")
    case True
    with "2.prems" have "t = takeWhile is_cid_char (drop 3 cs)
                           \<or> Ref t \<in> set (cid_split (dropWhile is_cid_char (drop 3 cs)))"
      by auto
    then show ?thesis
    proof
      assume "t = takeWhile is_cid_char (drop 3 cs)"
      with True show ?thesis
        by (auto simp: list_all_iff dest: set_takeWhileD)
    next
      assume "Ref t \<in> set (cid_split (dropWhile is_cid_char (drop 3 cs)))"
      with "2.IH"(1) True show ?thesis by blast
    qed
  next
    case False
    with "2.prems" have "Ref t \<in> set (cid_split cs)" by auto
    with "2.IH"(2) False show ?thesis by blast
  qed
qed

text \<open>
  C4, as stated, fails: the token \<open>img1\<close> finds the image part by its Content-ID, the
  part's transfer encoding is \<open>7bit\<close>, and the reference is not replaced: the assertion
  on the transfer encoding ends the run.
\<close>

theorem handle_html_message_body_not_base64_counterexample:
  "find_part_by_content_id (newsletter ''7bit'' None) ''img1'' = Some 2
   \<and> fst (handle_html_message_body example_lib (newsletter ''7bit'' None)
            (walk (newsletter ''7bit'' None) ! 1) empty_world) = Inl AssertionError"
  by code_simp

text \<open>
  C4, amended. For an HTML body that decodes to \<open>text\<close>, and the matches of
  \<open>cid:([\w_@.-]+)\<close> that the scan from left to right finds in it (\<open>cid_split\<close>): when
  every part found for a token, first by Content-ID, bare or bracketed, else by the name
  parameter, has the transfer encoding \<open>base64\<close>, each reference with a part is replaced
  by the \<open>data:\<close> URI of the sniffed type and the part's base64 text without CR, LF and
  TAB, each reference without a part is replaced by \<open>broken\<close> with a warning logged, and
  the set returned, a new one, holds exactly the parts found. When a part found is not
  so encoded, the run ends in an \<open>AssertionError\<close> (or a \<open>TypeError\<close> for a multipart
  part).
\<close>

theorem handle_html_message_body_cids:
  assumes pay: "get_payload_decoded p = Some payload"
    and dec: "decode_html L p payload = Inr text"
  shows "(list_all (piece_usable message) (cid_split text) \<longrightarrow>
            handle_html_message_body L message p w
              = (Inr (concat (map (piece_text L message) (cid_split text)), length (heap w)),
                 w\<lparr>heap := heap w @ [set (concat (map (piece_parts message) (cid_split text)))],
                    warnings := warnings w @ concat (map (piece_warnings message) (cid_split text))\<rparr>))
       \<and> (\<not> list_all (piece_usable message) (cid_split text) \<longrightarrow>
            fst (handle_html_message_body L message p w) \<in> {Inl AssertionError, Inl TypeError})"
proof (intro conjI impI)
  let ?w1 = "w\<lparr>heap := heap w @ [{}]\<rparr>"
  have len: "length (heap w) < length (heap ?w1)" by simp
  {
    assume u: "list_all (piece_usable message) (cid_split text)"
    from re_sub_pieces [OF u len, of L] pay dec
    show "handle_html_message_body L message p w
              = (Inr (concat (map (piece_text L message) (cid_split text)), length (heap w)),
                 w\<lparr>heap := heap w @ [set (concat (map (piece_parts message) (cid_split text)))],
                    warnings := warnings w @ concat (map (piece_warnings message) (cid_split text))\<rparr>)"
      by (simp add: handle_html_message_body_def new_set_def consumed_def)
  }
  {
    assume nu: "\<not> list_all (piece_usable message) (cid_split text)"
    from re_sub_unusable [OF nu len, of L] pay dec
    show "fst (handle_html_message_body L message p w) \<in> {Inl AssertionError, Inl TypeError}"
      by (auto simp: handle_html_message_body_def new_set_def split: prod.splits sum.splits)
  }
qed

theorem handle_html_message_body_cids_witness:
  "list_all (piece_usable (newsletter ''base64'' None))
     (cid_split ''<img src=cid:img1> <img src=cid:none>'')
   \<and> fst (handle_html_message_body example_lib (newsletter ''base64'' None)
            (walk (newsletter ''base64'' None) ! 1) empty_world)
       = Inr (''<img src=data:image/png;base64,aGk=> <img src=broken>'', 0)
   \<and> heap (snd (handle_html_message_body example_lib (newsletter ''base64'' None)
                  (walk (newsletter ''base64'' None) ! 1) empty_world)) = [{2}]
   \<and> warnings (snd (handle_html_message_body example_lib (newsletter ''base64'' None)
                      (walk (newsletter ''base64'' None) ! 1) empty_world))
       = [''Could not find image cid none in email content.'']"
proof -
  let ?m = "newsletter ''base64'' None"
  let ?t = "''<img src=cid:img1> <img src=cid:none>''"
  have pay: "get_payload_decoded (walk ?m ! 1) = Some ?t"
    by code_simp
  have dec: "decode_html example_lib (walk ?m ! 1) ?t = Inr ?t"
    by code_simp
  have u: "list_all (piece_usable ?m) (cid_split ?t)"
    by code_simp
  have v1: "concat (map (piece_text example_lib ?m) (cid_split ?t))
              = ''<img src=data:image/png;base64,aGk=> <img src=broken>''"
    by code_simp
  have v2: "set (concat (map (piece_parts ?m) (cid_split ?t))) = {2}"
    by code_simp
  have v3: "concat (map (piece_warnings ?m) (cid_split ?t))
              = [''Could not find image cid none in email content.'']"
    by code_simp
  have w0: "heap empty_world = []" "warnings empty_world = []"
    by (simp_all add: empty_world_def)
  have eq: "handle_html_message_body example_lib ?m (walk ?m ! 1) empty_world
              = (Inr (concat (map (piece_text example_lib ?m) (cid_split ?t)), length (heap empty_world)),
                 empty_world\<lparr>heap := heap empty_world @ [set (concat (map (piece_parts ?m) (cid_split ?t)))],
                    warnings := warnings empty_world @ concat (map (piece_warnings ?m) (cid_split ?t))\<rparr>)"
    by (rule handle_html_message_body_cids [OF pay dec, of ?m empty_world, THEN conjunct1, THEN mp, OF u])
  have a: "fst (handle_html_message_body example_lib ?m (walk ?m ! 1) empty_world)
             = Inr (''<img src=data:image/png;base64,aGk=> <img src=broken>'', 0)"
    unfolding eq v1 w0 by simp
  have b: "heap (snd (handle_html_message_body example_lib ?m (walk ?m ! 1) empty_world)) = [{2}]"
    unfolding eq v2 w0 by simp
  have c: "warnings (snd (handle_html_message_body example_lib ?m (walk ?m ! 1) empty_world))
             = [''Could not find image cid none in email content.'']"
    unfolding eq v3 w0 by simp
  from u a b c show ?thesis by (intro conjI)
qed

section \<open>What each step leaves unchanged\<close>

lemma kept_refl [simp]: "kept w w"
  by (simp add: kept_def)

lemma kept_trans: "kept w w1 \<Longrightarrow> kept w1 w2 \<Longrightarrow> kept w w2"
  by (auto simp: kept_def)

lemma kept_nth: "kept w w' \<Longrightarrow> b < length (heap w) \<Longrightarrow> set_val w' b = set_val w b"
  by (auto simp: kept_def set_val_def nth_append)

lemma kept_length: "kept w w' \<Longrightarrow> length (heap w) \<le> length (heap w')"
  by (auto simp: kept_def)

lemma kept_heap_eq: "heap w' = heap w \<Longrightarrow> kept w w'"
  by (simp add: kept_def)

lemma new_set_kept: "new_set v w = (a, w') \<Longrightarrow> kept w w' \<and> a = length (heap w) \<and> heap w' = heap w @ [v]
   \<and> files w' = files w \<and> warnings w' = warnings w \<and> requests w' = requests w \<and> passes w' = passes w"
  by (auto simp: new_set_def kept_def)

lemma find_all_attachments_loop_frame:
  "files (find_all_attachments_loop ps i ign parts w) = files w
   \<and> warnings (find_all_attachments_loop ps i ign parts w) = warnings w
   \<and> requests (find_all_attachments_loop ps i ign parts w) = requests w
   \<and> passes (find_all_attachments_loop ps i ign parts w) = passes w
   \<and> (\<exists>P. heap (find_all_attachments_loop ps i ign parts w) = (heap w)[parts := P])"
proof (induction ps arbitrary: i w)
  case Nil
  show ?case by (auto intro: exI [of _ "heap w ! parts"])
next
  case (Cons p ps)
  let ?w1 = "(if i \<notin> set_val w ign \<and> \<not> is_multipart p
        then (if get_content_type (info p) \<notin> set MIME_TYPES_BLACKLIST then set_add parts i w else w)
        else w)"
  have f: "files ?w1 = files w" "warnings ?w1 = warnings w" "requests ?w1 = requests w" "passes ?w1 = passes w"
    by (simp_all add: set_add_def)
  have h: "\<exists>P. heap ?w1 = (heap w)[parts := P]"
    by (auto simp: set_add_def intro: exI [of _ "heap w ! parts"])
  from Cons.IH [of "i + 1" ?w1] f h show ?case
    by (auto simp del: One_nat_def) 
qed

lemma handle_attachments_loop_frame:
  "heap (snd (handle_attachments_loop L ps od apd ifa is w)) = heap w
   \<and> warnings (snd (handle_attachments_loop L ps od apd ifa is w)) = warnings w
   \<and> requests (snd (handle_attachments_loop L ps od apd ifa is w)) = requests w
   \<and> passes (snd (handle_attachments_loop L ps od apd ifa is w)) = passes w"
proof (induction L ps od apd ifa "is" w rule: handle_attachments_loop.induct)
  case (1 L ps od apd ifa w)
  show ?case by simp
next
  case (2 L ps od apd ifa i "is" w)
  show ?case
  proof (cases "extract_part_filename L (ps ! i)")
    case (Inl e)
    then show ?thesis by simp
  next
    case (Inr fname)
    show ?thesis
    proof (cases "falsy fname \<and> ifa")
      case True
      with "2.IH"(1) [OF Inr True] Inr show ?thesis by simp
    next
      case False
      show ?thesis
        using "2.IH"(2) [OF Inr False refl refl refl] Inr False
        by (auto simp: Let_def write_file_def split: option.splits)
    qed
  qed
qed


lemma handle_attachments_frame:
  assumes "handle_attachments L m od apd ifa ign w = (r, w')"
  shows "passes w' = passes w @ [(ign, set_val w ign)] \<and> warnings w' = warnings w
         \<and> requests w' = requests w \<and> (\<exists>P. heap w' = heap w @ [P])"
proof -
  let ?w0 = "w\<lparr>passes := passes w @ [(ign, set_val w ign)]\<rparr>"
  let ?parts = "length (heap w)"
  let ?w0' = "?w0\<lparr>heap := heap ?w0 @ [{}]\<rparr>"
  let ?w1 = "find_all_attachments_loop (walk m) 0 ign ?parts ?w0'"
  let ?res = "handle_attachments_loop L (walk m) od apd ifa (set_iter L (set_val ?w1 ?parts)) ?w1"
  have fa: "find_all_attachments m ign ?w0 = (?parts, ?w1)"
    by (simp add: find_all_attachments_def new_set_def)
  from find_all_attachments_loop_frame [of "walk m" 0 ign ?parts ?w0']
  obtain P where w1: "heap ?w1 = (heap w @ [{}])[?parts := P]" "passes ?w1 = passes w @ [(ign, set_val w ign)]"
    "warnings ?w1 = warnings w" "requests ?w1 = requests w"
    by auto
  then have h1: "heap ?w1 = heap w @ [P]" by simp
  from handle_attachments_loop_frame [of L "walk m" od apd ifa "set_iter L (set_val ?w1 ?parts)" ?w1]
  have fr: "heap (snd ?res) = heap ?w1" "warnings (snd ?res) = warnings ?w1"
    "requests (snd ?res) = requests ?w1" "passes (snd ?res) = passes ?w1"
    by simp_all
  have "w' = snd ?res"
    using assms unfolding handle_attachments_def Let_def fa
    by (auto split: prod.splits sum.splits)
  with fr w1 h1 show ?thesis by auto
qed

lemma filter_filenamed_parts_loop_frame:
  "new < length (heap w) \<Longrightarrow>
   heap (filter_filenamed_parts_loop ps is new w)
     = (heap w)[new := heap w ! new \<union> {i \<in> set is. get_filename (info (ps ! i)) \<noteq> None}]
   \<and> files (filter_filenamed_parts_loop ps is new w) = files w
   \<and> warnings (filter_filenamed_parts_loop ps is new w) = warnings w
   \<and> requests (filter_filenamed_parts_loop ps is new w) = requests w
   \<and> passes (filter_filenamed_parts_loop ps is new w) = passes w"
proof (induction "is" arbitrary: w)
  case Nil
  then show ?case by simp
next
  case (Cons i "is")
  let ?w1 = "(if get_filename (info (ps ! i)) \<noteq> None then set_add new i w else w)"
  have len: "new < length (heap ?w1)"
    using Cons.prems by (simp add: set_add_def)
  have "heap ?w1 ! new \<union> {j \<in> set is. get_filename (info (ps ! j)) \<noteq> None}
          = heap w ! new \<union> {j \<in> set (i # is). get_filename (info (ps ! j)) \<noteq> None}"
    using Cons.prems by (auto simp: set_add_def)
  with Cons.IH [OF len] Cons.prems show ?case
    by (auto simp: set_add_def)
qed

lemma filter_filenamed_parts_frame:
  "filter_filenamed_parts L m parts w
     = (length (heap w),
        w\<lparr>heap := heap w @ [{i \<in> set (set_iter L (set_val w parts)).
                               get_filename (info (walk m ! i)) \<noteq> None}]\<rparr>)"
proof -
  let ?w1 = "w\<lparr>heap := heap w @ [{}]\<rparr>"
  have len: "length (heap w) < length (heap ?w1)" by simp
  from filter_filenamed_parts_loop_frame [OF len, of "walk m" "set_iter L (set_val w parts)"]
  show ?thesis
    by (simp add: filter_filenamed_parts_def new_set_def)
qed

lemma list_update_union:
  "xs[a := (xs[a := xs ! a \<union> P]) ! a \<union> Q] = xs[a := xs ! a \<union> (P \<union> Q)]"
  by (cases "a < length xs") (simp_all add: Un_assoc list_update_beyond not_less)

lemma update_union_ex: "\<exists>P. xs = xs[a := xs ! a \<union> P]"
  by (rule exI [of _ "{}"]) simp

lemma update_insert_ex: "\<exists>P. xs[a := insert i (xs ! a)] = xs[a := xs ! a \<union> P]"
  by (rule exI [of _ "{i}"]) simp

lemma cid_replace_frame:
  assumes "cid_replace L m a t w = (r, w')"
  shows "files w' = files w \<and> requests w' = requests w \<and> passes w' = passes w
         \<and> (\<exists>P. heap w' = (heap w)[a := heap w ! a \<union> P])"
proof -
  from assms show ?thesis
    unfolding cid_replace_def Let_def
    by (auto simp: set_add_def logger_warning_def update_union_ex update_insert_ex
          split: option.splits if_splits)
qed

lemma re_sub_frame:
  "re_sub (cid_replace L m a) ps w = (r, w') \<Longrightarrow>
     files w' = files w \<and> requests w' = requests w \<and> passes w' = passes w
     \<and> (\<exists>P. heap w' = (heap w)[a := heap w ! a \<union> P])"
proof (induction ps arbitrary: w r w')
  case Nil
  then show ?case by (auto simp: update_union_ex)
next
  case (Cons p ps)
  show ?case
  proof (cases p)
    case (Plain c)
    obtain r1 w1 where r1: "re_sub (cid_replace L m a) ps w = (r1, w1)"
      by (cases "re_sub (cid_replace L m a) ps w")
    with Cons.prems Plain have "w' = w1"
      by (auto split: sum.splits)
    with Cons.IH [OF r1] show ?thesis by simp
  next
    case (Ref t)
    obtain r1 w1 where r1: "cid_replace L m a t w = (r1, w1)"
      by (cases "cid_replace L m a t w")
    from cid_replace_frame [OF r1] obtain P where f1: "files w1 = files w" "requests w1 = requests w"
      "passes w1 = passes w" "heap w1 = (heap w)[a := heap w ! a \<union> P]"
      by auto
    show ?thesis
    proof (cases r1)
      case (Inl e)
      with Cons.prems Ref r1 have "w' = w1" by simp
      with f1 show ?thesis by auto
    next
      case (Inr out)
      obtain r2 w2 where r2: "re_sub (cid_replace L m a) ps w1 = (r2, w2)"
        by (cases "re_sub (cid_replace L m a) ps w1")
      with Cons.prems Ref r1 Inr have w': "w' = w2"
        by (auto split: sum.splits)
      from Cons.IH [OF r2] obtain Q where f2: "files w2 = files w1" "requests w2 = requests w1"
        "passes w2 = passes w1" "heap w2 = (heap w1)[a := heap w1 ! a \<union> Q]"
        by auto
      from f1 f2 have h2: "heap w2 = (heap w)[a := heap w ! a \<union> (P \<union> Q)]"
        by (simp add: list_update_union)
      have "files w' = files w" "requests w' = requests w" "passes w' = passes w"
        using f1 f2 w' by simp_all
      moreover have "\<exists>R. heap w' = (heap w)[a := heap w ! a \<union> R]"
        using h2 w' by blast
      ultimately show ?thesis by blast
    qed
  qed
qed

lemma handle_html_message_body_frame:
  assumes "handle_html_message_body L m p w = (r, w')"
  shows "files w' = files w \<and> requests w' = requests w \<and> passes w' = passes w
         \<and> (\<exists>P. heap w' = heap w @ [P])
         \<and> (\<forall>out used. r = Inr (out, used) \<longrightarrow> used = length (heap w))"
proof -
  let ?w1 = "w\<lparr>heap := heap w @ [{}]\<rparr>"
  show ?thesis
  proof (cases "get_payload_decoded p")
    case None
    with assms show ?thesis
      by (auto simp: handle_html_message_body_def new_set_def)
  next
    case (Some payload)
    show ?thesis
    proof (cases "decode_html L p payload")
      case (Inl e)
      with Some assms show ?thesis
        by (auto simp: handle_html_message_body_def new_set_def)
    next
      case (Inr body_text)
      obtain r2 w2 where r2: "re_sub (cid_replace L m (length (heap w))) (cid_split body_text) ?w1 = (r2, w2)"
        by (cases "re_sub (cid_replace L m (length (heap w))) (cid_split body_text) ?w1")
      from re_sub_frame [OF r2] obtain P where f: "files w2 = files w" "requests w2 = requests w"
        "passes w2 = passes w" "heap w2 = heap w @ [P]"
        by auto
      from assms Some Inr r2 have "w' = w2 \<and> (\<forall>out used. r = Inr (out, used) \<longrightarrow> used = length (heap w))"
        by (auto simp: handle_html_message_body_def new_set_def split: sum.splits)
      with f show ?thesis by auto
    qed
  qed
qed

lemma handle_plain_message_body_frame:
  assumes "handle_plain_message_body L p w = (r, w')"
  shows "files w' = files w \<and> requests w' = requests w \<and> passes w' = passes w \<and> heap w' = heap w"
  using assms unfolding handle_plain_message_body_def Let_def
  by (auto simp: logger_warning_def split: option.splits sum.splits if_splits)

lemma handle_message_body_frame:
  assumes "handle_message_body L a m w = (r, w')"
  shows "files w' = files w \<and> requests w' = requests w \<and> passes w' = passes w
         \<and> kept w w'
         \<and> (\<forall>payload used. r = Inr (payload, used) \<longrightarrow> length (heap w) \<le> used \<and> used < length (heap w'))"
proof -
  let ?w1 = "w\<lparr>heap := heap w @ [{}]\<rparr>"
  show ?thesis
  proof (cases "find_part_by_content_type m ''text/html''")
    case (Some i)
    obtain r2 w2 where r2: "handle_html_message_body L m (walk m ! i) ?w1 = (r2, w2)"
      by (cases "handle_html_message_body L m (walk m ! i) ?w1")
    from handle_html_message_body_frame [OF r2] obtain P where f: "files w2 = files w"
      "requests w2 = requests w" "passes w2 = passes w" "heap w2 = heap w @ [{}, P]"
      "\<forall>out used. r2 = Inr (out, used) \<longrightarrow> used = length (heap w) + 1"
      by auto
    from assms Some r2 have "w' = w2 \<and> (\<forall>payload used. r = Inr (payload, used) \<longrightarrow> (\<exists>out. r2 = Inr (out, used)))"
      by (auto simp: handle_message_body_def new_set_def split: sum.splits)
    with f show ?thesis
      by (auto simp: kept_def)
  next
    case None
    show ?thesis
    proof (cases "find_part_by_content_type m ''text/plain''")
      case n2: None
      with None assms show ?thesis
        by (auto simp: handle_message_body_def new_set_def kept_def split: if_splits)
    next
      case (Some i)
      obtain r2 w2 where r2: "handle_plain_message_body L (walk m ! i) ?w1 = (r2, w2)"
        by (cases "handle_plain_message_body L (walk m ! i) ?w1")
      from handle_plain_message_body_frame [OF r2] have f: "files w2 = files w"
        "requests w2 = requests w" "passes w2 = passes w" "heap w2 = heap w @ [{}]"
        by auto
      from assms None Some r2 have "w' = w2 \<and> (\<forall>payload used. r = Inr (payload, used) \<longrightarrow> used = length (heap w))"
        by (auto simp: handle_message_body_def new_set_def split: sum.splits)
      with f show ?thesis
        by (auto simp: kept_def)
    qed
  qed
qed

lemma check_img_frame:
  assumes "check_img L attrs w = (r, w')"
  shows "heap w' = heap w \<and> passes w' = passes w \<and> files w' = files w"
  using assms unfolding check_img_def Let_def can_url_fetch_def
  by (auto simp: logger_warning_def split: option.splits if_splits fetch_result.splits)

lemma check_imgs_frame:
  "heap (snd (check_imgs L n w)) = heap w \<and> passes (snd (check_imgs L n w)) = passes w
   \<and> files (snd (check_imgs L n w)) = files w"
  and check_imgs_list_frame:
  "heap (snd (check_imgs_list L ns w)) = heap w \<and> passes (snd (check_imgs_list L ns w)) = passes w
   \<and> files (snd (check_imgs_list L ns w)) = files w"
proof (induction L n w and L ns w rule: check_imgs_check_imgs_list.induct)
  case (1 L t w)
  show ?case by simp
next
  case (2 L tag attrs children w)
  obtain r1 w1 where r1: "(if tag = ''img'' then check_img L attrs w else (Inr attrs, w)) = (r1, w1)"
    by (cases "if tag = ''img'' then check_img L attrs w else (Inr attrs, w)")
  then have f1: "heap w1 = heap w \<and> passes w1 = passes w \<and> files w1 = files w"
    using check_img_frame [of L attrs w r1 w1] by (auto split: if_splits)
  show ?case
  proof (cases r1)
    case (Inl e)
    with r1 f1 show ?thesis by simp
  next
    case (Inr attrs')
    from "2.IH" [OF r1 [symmetric] Inr] f1 r1 Inr show ?thesis
      by (auto split: prod.splits sum.splits)
  qed
next
  case (3 L w)
  show ?case by simp
next
  case (4 L n ns w)
  obtain r1 w1 where r1: "check_imgs L n w = (r1, w1)"
    by (cases "check_imgs L n w")
  with "4.IH"(1) have f1: "heap w1 = heap w \<and> passes w1 = passes w \<and> files w1 = files w"
    by simp
  show ?case
  proof (cases r1)
    case (Inl e)
    with r1 f1 show ?thesis by simp
  next
    case (Inr n')
    from "4.IH"(2) [OF r1 [symmetric] Inr] f1 r1 Inr show ?thesis
      by (auto split: prod.splits sum.splits)
  qed
qed

lemma remove_invalid_urls_frame:
  "heap (snd (remove_invalid_urls L payload w)) = heap w
   \<and> passes (snd (remove_invalid_urls L payload w)) = passes w"
  using check_imgs_frame [of L "soup_parse L payload" w]
  by (auto simp: remove_invalid_urls_def split: prod.splits sum.splits)

lemma output_body_pdf_frame:
  "heap (snd (output_body_pdf L m payload ofn w)) = heap w
   \<and> passes (snd (output_body_pdf L m payload ofn w)) = passes w"
  by (auto simp: output_body_pdf_def Let_def rendered_def write_file_def add_update_pdf_metadata_def
        split: option.splits sum.splits)

lemma print_body_frame:
  "heap (snd (print_body L a m payload ofn w)) = heap w
   \<and> passes (snd (print_body L a m payload ofn w)) = passes w"
proof (cases payload)
  case None
  then show ?thesis by (simp add: print_body_def)
next
  case (Some html)
  obtain r1 w1 where r1: "remove_invalid_urls L html w = (r1, w1)"
    by (cases "remove_invalid_urls L html w")
  with remove_invalid_urls_frame [of L html w] have f1: "heap w1 = heap w" "passes w1 = passes w"
    by simp_all
  show ?thesis
    using Some r1 f1 output_body_pdf_frame [of L m _ ofn w1]
    by (auto simp: print_body_def split: sum.splits)
qed

lemma retry_attachments_passes:
  assumes used: "used < length (heap w)"
    and run: "retry_attachments L a m od used w = (r, w')"
  shows "(iter_filenamed L m (set_val w used) \<noteq> {} \<longrightarrow>
            passes w' = passes w @ [(length (heap w) + 2, set_val w used - iter_filenamed L m (set_val w used))])
       \<and> (iter_filenamed L m (set_val w used) = {} \<longrightarrow>
            passes w' = passes w \<and> r = Inr 0 \<and> warnings w' = warnings w @ [second_try_warning])
       \<and> kept w w'"
proof -
  let ?S = "set_val w used"
  let ?F = "iter_filenamed L m ?S"
  let ?pwf = "length (heap w)"
  let ?w1 = "w\<lparr>heap := heap w @ [{i \<in> set (set_iter L ?S). get_filename (info (walk m ! i)) \<noteq> None}]\<rparr>"
  have ff: "filter_filenamed_parts L m used w = (?pwf, ?w1)"
    by (rule filter_filenamed_parts_frame)
  have F: "{i \<in> set (set_iter L ?S). get_filename (info (walk m ! i)) \<noteq> None} = ?F"
    by (auto simp: iter_filenamed_def filenamed_def)
  have v1: "set_val ?w1 ?pwf = ?F"
    using F by (simp add: set_val_def)
  have v2: "set_val ?w1 used = ?S"
    using used by (simp add: set_val_def nth_append)
  have fin: "finite ?F"
    using F [symmetric] by simp
  then have card: "card ?F > 0 \<longleftrightarrow> ?F \<noteq> {}"
    by (simp add: card_gt_0_iff)
  show ?thesis
  proof (cases "?F = {}")
    case True
    with run ff v1 card show ?thesis
      by (auto simp: retry_attachments_def logger_warning_def kept_def)
  next
    case False
    let ?w2 = "?w1\<lparr>heap := heap ?w1 @ [?S - ?F]\<rparr>"
    let ?w3 = "?w2\<lparr>heap := heap ?w2 @ [?S - ?F]\<rparr>"
    let ?copy = "length (heap w) + 2"
    have n1: "new_set (set_val ?w1 used - set_val ?w1 ?pwf) ?w1 = (length (heap w) + 1, ?w2)"
      unfolding new_set_def v1 v2 by simp
    have v3: "set_val ?w2 (length (heap w) + 1) = ?S - ?F"
      by (simp add: set_val_def nth_append)
    have n2: "new_set (set_val ?w2 (length (heap w) + 1)) ?w2 = (?copy, ?w3)"
      unfolding new_set_def v3 by simp
    have v4: "set_val ?w3 ?copy = ?S - ?F"
      by (simp add: set_val_def nth_append)
    obtain r2 w4 where ha: "handle_attachments L m od (add_prefix_date a) (ignore_floating_attachments a)
                              ?copy ?w3 = (r2, w4)"
      by (cases "handle_attachments L m od (add_prefix_date a) (ignore_floating_attachments a) ?copy ?w3")
    from handle_attachments_frame [OF ha] v4 obtain P where
      f: "passes w4 = passes w @ [(?copy, ?S - ?F)]" "heap w4 = heap ?w3 @ [P]"
      by auto
    have k: "kept w w4"
      using f(2) by (simp add: kept_def)
    from run have "passes w' = passes w4 \<and> heap w' = heap w4"
      unfolding retry_attachments_def ff
      using False card v1 n1 n2 ha
      by (auto simp: logger_warning_def Let_def split: sum.splits if_splits)
    with f k False show ?thesis
      by (simp add: kept_def)
  qed
qed


lemma main_stages:
  assumes hb: "handle_message_body L a m w = (Inr (payload, used), w1)"
  shows "\<exists>w2 w3 w4 X Y.
           heap w2 = heap w1 \<and> passes w2 = passes w1
         \<and> kept w2 w3 \<and> passes w3 = passes w2 @ X \<and> (X = [] \<or> X = [(used, set_val w2 used)])
         \<and> kept w3 w4 \<and> passes w4 = passes w3 @ Y
         \<and> (Y = [] \<or> (\<exists>S. Y = [(length (heap w3) + 2, S)]))
         \<and> heap (snd (main L a m data od ofn w)) = heap w4
         \<and> passes (snd (main L a m data od ofn w)) = passes w4"
proof -
  obtain r2 w2 where s2: "(if body a then print_body L a m payload ofn w1 else (Inr (), w1)) = (r2, w2)"
    by (cases "if body a then print_body L a m payload ofn w1 else (Inr (), w1)")
  have f2: "heap w2 = heap w1" "passes w2 = passes w1"
    using s2 print_body_frame [of L a m payload ofn w1] by (auto split: if_splits)
  show ?thesis
  proof (cases r2)
    case (Inl e)
    have "main L a m data od ofn w = (Inl e, w2)"
      unfolding main_def hb prod.case sum.case s2 Inl ..
    with f2 show ?thesis
      by (intro exI [of _ w2] exI [of _ "[]"]) simp
  next
    case r2: (Inr u)
    obtain r3 w3 where s3: "(if attachments a then
                        (case handle_attachments L m od (add_prefix_date a)
                                (ignore_floating_attachments a) used w2 of
                           (Inl e, w3) \<Rightarrow> (Inl e, w3)
                         | (Inr n, w3) \<Rightarrow> (Inr (Some n), w3))
                      else (Inr None, w2)) = (r3, w3)"
      by (cases "(if attachments a then
                        (case handle_attachments L m od (add_prefix_date a)
                                (ignore_floating_attachments a) used w2 of
                           (Inl e, w3) \<Rightarrow> (Inl e, w3)
                         | (Inr n, w3) \<Rightarrow> (Inr (Some n), w3))
                      else (Inr None, w2))")
    have f3: "kept w2 w3 \<and> (passes w3 = passes w2 @ [] \<or> passes w3 = passes w2 @ [(used, set_val w2 used)])"
    proof (cases "attachments a")
      case False
      with s3 show ?thesis by simp
    next
      case True
      obtain rh wh where h: "handle_attachments L m od (add_prefix_date a)
                                (ignore_floating_attachments a) used w2 = (rh, wh)"
        by (cases "handle_attachments L m od (add_prefix_date a) (ignore_floating_attachments a) used w2")
      with s3 True have "w3 = wh" by (auto split: sum.splits)
      with handle_attachments_frame [OF h] show ?thesis
        by (auto simp: kept_def)
    qed
    then obtain X where X: "passes w3 = passes w2 @ X" "X = [] \<or> X = [(used, set_val w2 used)]"
      by blast
    show ?thesis
    proof (cases r3)
      case (Inl e)
      have "main L a m data od ofn w = (Inl e, w3)"
        unfolding main_def hb prod.case sum.case s2 r2 s3 Inl ..
      with f2 f3 X show ?thesis
        by (intro exI [of _ w2] exI [of _ w3] exI [of _ X] exI [of _ "[]"]) simp
    next
      case r3: (Inr noa)
      obtain r4 w4 where s4: "(if \<not> body a then
                             (case noa of
                                None \<Rightarrow> (Inl UnboundLocalError, w3)
                              | Some n \<Rightarrow>
                                  if n = 0
                                  then retry_attachments L a m od used w3
                                  else (Inr n, w3))
                           else (Inr 0, w3)) = (r4, w4)"
        by (cases "(if \<not> body a then
                             (case noa of
                                None \<Rightarrow> (Inl UnboundLocalError, w3)
                              | Some n \<Rightarrow>
                                  if n = 0
                                  then retry_attachments L a m od used w3
                                  else (Inr n, w3))
                           else (Inr 0, w3))")
      from handle_message_body_frame [OF hb] have "used < length (heap w1)" by simp
      with f2 f3 have u3: "used < length (heap w3)"
        by (auto simp: kept_def)
      have f4: "kept w3 w4 \<and> (passes w4 = passes w3 @ [] \<or> (\<exists>S. passes w4 = passes w3 @ [(length (heap w3) + 2, S)]))"
      proof (cases "\<not> body a \<and> noa = Some 0")
        case False
        with s4 show ?thesis
          by (auto split: if_splits option.splits)
      next
        case True
        with s4 have "retry_attachments L a m od used w3 = (r4, w4)" by simp
        from retry_attachments_passes [OF u3 this] show ?thesis
          by (cases "iter_filenamed L m (set_val w3 used) = {}") auto
      qed
      then obtain Y where Y: "passes w4 = passes w3 @ Y" "Y = [] \<or> (\<exists>S. Y = [(length (heap w3) + 2, S)])"
        by blast
      have fin: "heap (snd (main L a m data od ofn w)) = heap w4
                 \<and> passes (snd (main L a m data od ofn w)) = passes w4"
        unfolding main_def hb prod.case sum.case s2 r2 s3 r3 s4
        by (cases r4) (simp_all add: Let_def write_file_def)
      with f2 f3 X f4 Y show ?thesis
        by (intro exI [of _ w2] exI [of _ w3] exI [of _ w4] exI [of _ X] exI [of _ Y]) simp
    qed
  qed
qed

lemma cid_replace_grows: "set_val w0 a \<subseteq> set_val (snd (cid_replace L m a t w0)) a"
proof -
  obtain r w' where r: "cid_replace L m a t w0 = (r, w')"
    by (cases "cid_replace L m a t w0")
  from cid_replace_frame [OF r] obtain P where "heap w' = (heap w0)[a := heap w0 ! a \<union> P]"
    by auto
  then have "set_val w0 a \<subseteq> set_val w' a"
    by (cases "a < length (heap w0)") (simp_all add: set_val_def list_update_beyond not_less)
  with r show ?thesis by simp
qed

lemma re_sub_grows: "set_val w0 a \<subseteq> set_val (snd (re_sub (cid_replace L m a) ps w0)) a"
proof -
  obtain r w' where r: "re_sub (cid_replace L m a) ps w0 = (r, w')"
    by (cases "re_sub (cid_replace L m a) ps w0")
  from re_sub_frame [OF r] obtain P where "heap w' = (heap w0)[a := heap w0 ! a \<union> P]"
    by auto
  then have "set_val w0 a \<subseteq> set_val w' a"
    by (cases "a < length (heap w0)") (simp_all add: set_val_def list_update_beyond not_less)
  with r show ?thesis by simp
qed

lemma handle_message_body_no_html:
  assumes hb: "handle_message_body L a m w = (Inr (payload, used), w1)"
    and nohtml: "find_part_by_content_type m ''text/html'' = None"
  shows "set_val w1 used = {}"
proof (cases "find_part_by_content_type m ''text/plain''")
  case None
  with hb nohtml show ?thesis
    by (auto simp: handle_message_body_def new_set_def set_val_def split: if_splits)
next
  case (Some i)
  let ?w0 = "w\<lparr>heap := heap w @ [{}]\<rparr>"
  obtain r2 w2 where r2: "handle_plain_message_body L (walk m ! i) ?w0 = (r2, w2)"
    by (cases "handle_plain_message_body L (walk m ! i) ?w0")
  from handle_plain_message_body_frame [OF r2] have h: "heap w2 = heap w @ [{}]" by simp
  from hb nohtml Some r2 have "w1 = w2 \<and> used = length (heap w)"
    by (auto simp: handle_message_body_def new_set_def split: sum.splits)
  with h show ?thesis by (simp add: set_val_def)
qed

section \<open>The consumed parts and the second pass\<close>

text \<open>
  C9. In a run whose body resolution returns the set object \<open>used\<close>: the object is
  created during body resolution; it is empty when there is no HTML body; each
  inline image step, and the whole substitution, leaves in it what it held and may add
  to it; at the end of \<open>main\<close>, also one that an exception ends, it holds exactly what it
  held after body resolution; and every set passed to \<open>handle_attachments\<close> is either
  this object with that content, or an object created after body resolution.
\<close>

theorem consumed_set_only_grows:
  assumes hb: "handle_message_body L a m w = (Inr (payload, used), w1)"
  shows "length (heap w) \<le> used \<and> used < length (heap w1)
       \<and> (find_part_by_content_type m ''text/html'' = None \<longrightarrow> set_val w1 used = {})
       \<and> (\<forall>t w0. set_val w0 used \<subseteq> set_val (snd (cid_replace L m used t w0)) used)
       \<and> (\<forall>ps w0. set_val w0 used \<subseteq> set_val (snd (re_sub (cid_replace L m used) ps w0)) used)
       \<and> set_val (snd (main L a m data od ofn w)) used = set_val w1 used
       \<and> (\<forall>(b, S) \<in> set (drop (length (passes w)) (passes (snd (main L a m data od ofn w)))).
             b = used \<and> S = set_val w1 used \<or> length (heap w1) \<le> b)"
proof -
  from handle_message_body_frame [OF hb] have u: "length (heap w) \<le> used" "used < length (heap w1)"
    and p1: "passes w1 = passes w"
    by simp_all
  from main_stages [OF hb, of data od ofn] obtain w2 w3 w4 X Y where
    st: "heap w2 = heap w1" "passes w2 = passes w1"
      "kept w2 w3" "passes w3 = passes w2 @ X" "X = [] \<or> X = [(used, set_val w2 used)]"
      "kept w3 w4" "passes w4 = passes w3 @ Y" "Y = [] \<or> (\<exists>S. Y = [(length (heap w3) + 2, S)])"
      "heap (snd (main L a m data od ofn w)) = heap w4"
      "passes (snd (main L a m data od ofn w)) = passes w4"
    by blast
  have k: "kept w1 w4"
    using st(1,3,6) by (auto simp: kept_def)
  have v2: "set_val w2 used = set_val w1 used"
    using st(1) by (simp add: set_val_def)
  have fin: "set_val (snd (main L a m data od ofn w)) used = set_val w1 used"
    using kept_nth [OF k u(2)] st(9) by (simp add: set_val_def)
  have len3: "length (heap w1) \<le> length (heap w3)"
    using st(1,3) by (auto simp: kept_def)
  have dr: "drop (length (passes w)) (passes (snd (main L a m data od ofn w))) = X @ Y"
    using st(2,4,7,10) p1 by simp
  have ps: "\<forall>(b, S) \<in> set (X @ Y). b = used \<and> S = set_val w1 used \<or> length (heap w1) \<le> b"
  proof -
    have x: "\<forall>(b, S) \<in> set X. b = used \<and> S = set_val w1 used \<or> length (heap w1) \<le> b"
      using st(5) v2 by auto
    have y: "\<forall>(b, S) \<in> set Y. b = used \<and> S = set_val w1 used \<or> length (heap w1) \<le> b"
      using st(8) len3 by auto
    from x y show ?thesis by auto
  qed
  have c3: "find_part_by_content_type m ''text/html'' = None \<longrightarrow> set_val w1 used = {}"
    using handle_message_body_no_html [OF hb] by (intro impI)
  have c4: "\<forall>t w0. set_val w0 used \<subseteq> set_val (snd (cid_replace L m used t w0)) used"
    by (intro allI) (rule cid_replace_grows)
  have c5: "\<forall>ps w0. set_val w0 used \<subseteq> set_val (snd (re_sub (cid_replace L m used) ps w0)) used"
    by (intro allI) (rule re_sub_grows)
  have c7: "\<forall>(b, S) \<in> set (drop (length (passes w)) (passes (snd (main L a m data od ofn w)))).
             b = used \<and> S = set_val w1 used \<or> length (heap w1) \<le> b"
    unfolding dr by (rule ps)
  from u(1) u(2) c3 c4 c5 fin c7 show ?thesis
    by (intro conjI)
qed

text \<open>
  C8. In a run without body whose first pass of \<open>handle_attachments\<close> returns 0, with an
  iteration that yields the consumed parts: when a consumed part carries a file name,
  \<open>handle_attachments\<close> is called exactly once more, on a new set holding the consumed
  parts without those that carry a file name; when none does, it is not called again and
  the warning of the second try is logged.
\<close>

theorem main_retry_policy:
  assumes nb: "\<not> body a" and at: "attachments a"
    and hb: "handle_message_body L a m w = (Inr (payload, used), w1)"
    and first: "handle_attachments L m od (add_prefix_date a) (ignore_floating_attachments a) used w1
                  = (Inr 0, w2)"
    and iter: "set (set_iter L (set_val w1 used)) = set_val w1 used"
  shows "(filenamed m (set_val w1 used) \<noteq> {} \<longrightarrow>
            passes (snd (main L a m data od ofn w))
              = passes w @ [(used, set_val w1 used),
                            (length (heap w2) + 2, set_val w1 used - filenamed m (set_val w1 used))])
       \<and> (filenamed m (set_val w1 used) = {} \<longrightarrow>
            passes (snd (main L a m data od ofn w)) = passes w @ [(used, set_val w1 used)]
            \<and> second_try_warning \<in> set (warnings (snd (main L a m data od ofn w))))"
proof -
  from handle_message_body_frame [OF hb] have u1: "used < length (heap w1)"
    and p1: "passes w1 = passes w"
    by simp_all
  from handle_attachments_frame [OF first] obtain P where
    f2: "passes w2 = passes w1 @ [(used, set_val w1 used)]" "heap w2 = heap w1 @ [P]"
    by auto
  have u2: "used < length (heap w2)" and v2: "set_val w2 used = set_val w1 used"
    using f2(2) u1 by (simp_all add: set_val_def nth_append)
  have F: "iter_filenamed L m (set_val w1 used) = filenamed m (set_val w1 used)"
    using iter by (simp add: iter_filenamed_def)
  obtain r4 w4 where run: "retry_attachments L a m od used w2 = (r4, w4)"
    by (cases "retry_attachments L a m od used w2")
  note rp = retry_attachments_passes [OF u2 run, unfolded v2 F]
  have fin: "passes (snd (main L a m data od ofn w)) = passes w4
             \<and> warnings (snd (main L a m data od ofn w)) = warnings w4"
    unfolding main_def hb prod.case sum.case using nb at first run
    by (cases r4) (simp_all add: Let_def write_file_def)
  from rp fin f2(1) p1 show ?thesis
    by auto
qed

lemma sample_body:
  "handle_message_body example_lib no_body_args (newsletter ''base64'' (Some ''logo.png'')) empty_world
     = (Inr (Some ''<img src=data:image/png;base64,aGk=> <img src=broken>'', 1), after_body)"
  by code_simp

lemma sample_first_pass:
  "handle_attachments example_lib (newsletter ''base64'' (Some ''logo.png'')) ''/out''
     (add_prefix_date no_body_args) (ignore_floating_attachments no_body_args) 1 after_body
     = (Inr 0, after_first_pass)"
  by code_simp

theorem main_retry_policy_witness:
  "\<not> body no_body_args
   \<and> filenamed (newsletter ''base64'' (Some ''logo.png'')) (set_val after_body 1) \<noteq> {}
   \<and> passes (snd (main example_lib no_body_args (newsletter ''base64'' (Some ''logo.png''))
                     ''raw'' ''/out'' ''/out/m.pdf'' empty_world))
       = [(1, {2}), (5, {})]"
proof -
  let ?m = "newsletter ''base64'' (Some ''logo.png'')"
  have nb: "\<not> body no_body_args" and at: "attachments no_body_args"
    by (simp_all add: no_body_args_def)
  have iter: "set (set_iter example_lib (set_val after_body 1)) = set_val after_body 1"
    by code_simp
  have F: "filenamed ?m (set_val after_body 1) \<noteq> {}"
    by code_simp
  have rhs: "passes empty_world
               @ [(1, set_val after_body 1),
                  (length (heap after_first_pass) + 2,
                   set_val after_body 1 - filenamed ?m (set_val after_body 1))]
             = [(1, {2}), (5, {})]"
    by code_simp
  from main_retry_policy [OF nb at sample_body sample_first_pass iter, of "''raw''" "''/out/m.pdf''",
         THEN conjunct1, THEN mp, OF F]
  have "passes (snd (main example_lib no_body_args ?m ''raw'' ''/out'' ''/out/m.pdf'' empty_world))
          = [(1, {2}), (5, {})]"
    unfolding rhs .
  with nb F show ?thesis by (intro conjI)
qed

theorem consumed_set_only_grows_witness:
  "set_val after_body 1 = {2}
   \<and> set_val (snd (main example_lib no_body_args (newsletter ''base64'' (Some ''logo.png''))
                      ''raw'' ''/out'' ''/out/m.pdf'' empty_world)) 1 = {2}"
proof -
  have v: "set_val after_body 1 = {2}"
    by code_simp
  from consumed_set_only_grows [OF sample_body, of "''raw''" "''/out''" "''/out/m.pdf''"]
  have "set_val (snd (main example_lib no_body_args (newsletter ''base64'' (Some ''logo.png''))
                      ''raw'' ''/out'' ''/out/m.pdf'' empty_world)) 1 = set_val after_body 1"
    by (elim conjE)
  with v show ?thesis by simp
qed

end
